theory Spec2Isabelle
  imports Complex_Main "HOL-Library.Word" "HOL-Library.Multiset"
begin

unbundle bit_operations_syntax

section \<open>Media bridge pool (media\_bridge\_pool.ts)\<close>

text \<open>
  JavaScript numbers that only count or hold millisecond timestamps are modelled as
  unbounded \<open>nat\<close>/\<open>int\<close> (they stay far below \<open>2 ^ 53\<close>). Numbers the source
  calculates with, the weights of the bridges and the result of \<open>parseInt\<close>, are
  IEEE 754 doubles (\<open>jsnum\<close> below); the one place where the source forces 32-bit
  arithmetic, the affinity hash, is modelled on \<open>32 word\<close>.
  A thrown \<open>Error\<close> is a value of \<open>js_error\<close>; a function that may throw returns
  \<open>js_error + 'a\<close>.
\<close>

datatype js_error = Error string

fun error_toString :: "js_error \<Rightarrow> string" where
  "error_toString (Error m) = ''Error: '' @ m"

subsection \<open>Numbers\<close>

text \<open>
  A JavaScript number is a double: a rational that has a 53-bit significand and an
  exponent in range (\<open>Num\<close>), one of the two infinities, or NaN. The sign of zero is
  not kept, as nothing in the source tells \<open>-0\<close> from \<open>0\<close>. The arithmetic
  operations round their exact result to a double, as IEEE 754 has it.
\<close>

datatype jsnum = Num rat | PosInf | NegInf | NaN

text \<open>The number of binary digits of a positive integer.\<close>

function bitLength :: "int \<Rightarrow> int" where
  "bitLength n = (if n \<le> 0 then 0 else 1 + bitLength (n div 2))"
  by pat_completeness auto
termination
  by (relation "measure nat") auto

declare bitLength.simps [simp del]

definition pow2 :: "int \<Rightarrow> rat" where
  "pow2 e = (if 0 \<le> e then 2 ^ nat e else 1 / 2 ^ nat (- e))"

text \<open>The binary exponent of a positive rational: the \<open>e\<close> with
  \<open>2 ^ e \<le> x < 2 ^ (e + 1)\<close>.\<close>

definition ilog2 :: "rat \<Rightarrow> int" where
  "ilog2 x =
     (if 1 \<le> x then bitLength \<lfloor>x\<rfloor> - 1
      else (let y = 1 / x; k = bitLength \<lfloor>y\<rfloor> - 1
            in if pow2 k = y then - k else - k - 1))"

definition roundHalfEven :: "rat \<Rightarrow> int" where
  "roundHalfEven q =
     (let f = \<lfloor>q\<rfloor>; r = q - of_int f
      in if r < 1 / 2 then f else if 1 / 2 < r then f + 1 else if even f then f else f + 1)"

text \<open>
  The double nearest to a real result (round to nearest, ties to even): the spacing of
  the doubles around a value with binary exponent \<open>e\<close> is \<open>2 ^ (e - 52)\<close>, with
  \<open>e\<close> no smaller than \<open>-1022\<close> (the subnormal numbers), and a result that rounds to
  \<open>2 ^ 1024\<close> or more is infinite.
\<close>

definition roundToDouble :: "rat \<Rightarrow> jsnum" where
  "roundToDouble x =
     (if x = 0 then Num 0
      else (let a = \<bar>x\<bar>;
                e = max (ilog2 a) (- 1022);
                ulp = pow2 (e - 52);
                y = of_int (roundHalfEven (a / ulp)) * ulp
            in if pow2 1024 \<le> y then (if 0 < x then PosInf else NegInf)
               else Num (if 0 < x then y else - y)))"

text \<open>\<open>a + b\<close> and \<open>a * b\<close> on numbers.\<close>

fun jsAdd :: "jsnum \<Rightarrow> jsnum \<Rightarrow> jsnum" where
  "jsAdd NaN b = NaN"
| "jsAdd a NaN = NaN"
| "jsAdd PosInf NegInf = NaN"
| "jsAdd NegInf PosInf = NaN"
| "jsAdd PosInf b = PosInf"
| "jsAdd a PosInf = PosInf"
| "jsAdd NegInf b = NegInf"
| "jsAdd a NegInf = NegInf"
| "jsAdd (Num a) (Num b) = roundToDouble (a + b)"

fun jsTimes :: "jsnum \<Rightarrow> jsnum \<Rightarrow> jsnum" where
  "jsTimes NaN b = NaN"
| "jsTimes a NaN = NaN"
| "jsTimes (Num a) (Num b) = roundToDouble (a * b)"
| "jsTimes (Num a) PosInf = (if a = 0 then NaN else if 0 < a then PosInf else NegInf)"
| "jsTimes (Num a) NegInf = (if a = 0 then NaN else if 0 < a then NegInf else PosInf)"
| "jsTimes PosInf (Num b) = (if b = 0 then NaN else if 0 < b then PosInf else NegInf)"
| "jsTimes NegInf (Num b) = (if b = 0 then NaN else if 0 < b then NegInf else PosInf)"
| "jsTimes PosInf PosInf = PosInf"
| "jsTimes PosInf NegInf = NegInf"
| "jsTimes NegInf PosInf = NegInf"
| "jsTimes NegInf NegInf = PosInf"

text \<open>\<open>a % b\<close>: NaN when an operand is NaN, the dividend is infinite or the divisor is
  zero; the dividend when the divisor is infinite; otherwise the dividend minus the
  divisor times the quotient truncToZerod towards zero, which is a double whenever both
  operands are, so that no rounding takes place.\<close>

definition truncToZero :: "rat \<Rightarrow> int" where
  "truncToZero q = (if 0 \<le> q then \<lfloor>q\<rfloor> else \<lceil>q\<rceil>)"

fun jsRem :: "jsnum \<Rightarrow> jsnum \<Rightarrow> jsnum" where
  "jsRem (Num a) (Num b) = (if b = 0 then NaN else Num (a - b * of_int (truncToZero (a / b))))"
| "jsRem (Num a) PosInf = Num a"
| "jsRem (Num a) NegInf = Num a"
| "jsRem a b = NaN"

text \<open>\<open>a < b\<close> and \<open>a <= b\<close>: false when an operand is NaN.\<close>

fun jsLess :: "jsnum \<Rightarrow> jsnum \<Rightarrow> bool" where
  "jsLess NaN b = False"
| "jsLess a NaN = False"
| "jsLess (Num a) (Num b) = (a < b)"
| "jsLess (Num a) PosInf = True"
| "jsLess (Num a) NegInf = False"
| "jsLess PosInf b = False"
| "jsLess NegInf (Num b) = True"
| "jsLess NegInf PosInf = True"
| "jsLess NegInf NegInf = False"

fun jsLessEq :: "jsnum \<Rightarrow> jsnum \<Rightarrow> bool" where
  "jsLessEq NaN b = False"
| "jsLessEq a NaN = False"
| "jsLessEq (Num a) (Num b) = (a \<le> b)"
| "jsLessEq (Num a) PosInf = True"
| "jsLessEq (Num a) NegInf = False"
| "jsLessEq PosInf (Num b) = False"
| "jsLessEq PosInf PosInf = True"
| "jsLessEq PosInf NegInf = False"
| "jsLessEq NegInf b = True"

text \<open>\<open>Math.max(a, b)\<close>: NaN when an argument is NaN, else the larger.\<close>

definition jsMax :: "jsnum \<Rightarrow> jsnum \<Rightarrow> jsnum" where
  "jsMax a b = (if a = NaN \<or> b = NaN then NaN else if jsLess a b then b else a)"

subsection \<open>Bridge instances\<close>

record MediaBridgeDefinition =
  d_id :: string
  d_baseUrl :: string
  d_apiKey :: "string option"
  d_weight :: "jsnum option"
  d_healthCheckPath :: "string option"
  d_metadata :: "(string \<times> string) list option"

datatype MediaBridgeHealthState = healthy_state | unhealthy_state | degraded_state

record MediaBridgeInstance =
  id_of :: string
  baseUrl :: string
  apiKey :: string
  weight :: jsnum
  healthCheckPath :: string
  metadata :: "(string \<times> string) list"
  healthy :: bool
  lastCheckedAt :: "int option"
  lastLatencyMs :: "int option"
  consecutiveFailures :: nat

record MediaBridgeSnapshot =
  s_id :: string
  s_baseUrl :: string
  s_apiKey :: string
  s_weight :: jsnum
  s_healthy :: bool
  s_state :: MediaBridgeHealthState
  s_lastCheckedAt :: "int option"
  s_latencyMs :: "int option"
  s_consecutiveFailures :: nat
  s_metadata :: "(string \<times> string) list"

text \<open>\<open>baseUrl.replace(/\/?$/, '/')\<close>: the URL ends in exactly the slash it had, or gets one.\<close>

definition withTrailingSlash :: "string \<Rightarrow> string" where
  "withTrailingSlash u = (if u \<noteq> [] \<and> last u = CHR ''/'' then u else u @ ''/'')"

text \<open>\<open>x || dflt\<close> on an optional string: undefined and the empty string give the default.\<close>

definition orDefault :: "string option \<Rightarrow> string \<Rightarrow> string" where
  "orDefault x dflt = (case x of None \<Rightarrow> dflt | Some s \<Rightarrow> if s = [] then dflt else s)"

text \<open>The constructor of \<open>MediaBridgeInstance\<close>; the field initialisers give
  \<open>healthy = true\<close> and \<open>consecutiveFailures = 0\<close>.\<close>

definition newInstance :: "MediaBridgeDefinition \<Rightarrow> MediaBridgeInstance" where
  "newInstance d =
     \<lparr> id_of = d_id d,
       baseUrl = withTrailingSlash (d_baseUrl d),
       apiKey = orDefault (d_apiKey d) [],
       weight = jsMax (Num 1) (case d_weight d of None \<Rightarrow> Num 1 | Some w \<Rightarrow> w),
       healthCheckPath = orDefault (d_healthCheckPath d) ''health'',
       metadata = (case d_metadata d of None \<Rightarrow> [] | Some m \<Rightarrow> m),
       healthy = True,
       lastCheckedAt = None,
       lastLatencyMs = None,
       consecutiveFailures = 0 \<rparr>"

text \<open>The getter \<open>state\<close>.\<close>

definition state :: "MediaBridgeInstance \<Rightarrow> MediaBridgeHealthState" where
  "state b =
     (if \<not> healthy b then unhealthy_state
      else if consecutiveFailures b > 0 then degraded_state
      else healthy_state)"

text \<open>
  \<open>probe\<close>: the outcome of the \<open>fetch\<close> is an input (a 2xx response, another response,
  or a rejected fetch), and so are the three readings of \<open>Date.now()\<close>: at the start, for
  the latency, and for \<open>lastCheckedAt\<close>. The emitted \<open>probe\<close> event and the log line do
  not touch the instance and are left out.
\<close>

datatype ProbeOutcome = ResponseOk | ResponseNotOk | FetchRejected

definition probe :: "int \<Rightarrow> int \<Rightarrow> int \<Rightarrow> ProbeOutcome \<Rightarrow> MediaBridgeInstance \<Rightarrow> MediaBridgeInstance" where
  "probe start now1 now2 outcome b =
     (let b1 = b\<lparr> lastLatencyMs := Some (now1 - start), lastCheckedAt := Some now2 \<rparr>
      in case outcome of
           ResponseNotOk \<Rightarrow>
             (let b2 = b1\<lparr> consecutiveFailures := consecutiveFailures b1 + 1 \<rparr>
              in if consecutiveFailures b2 > 2 then b2\<lparr> healthy := False \<rparr> else b2)
         | ResponseOk \<Rightarrow> b1\<lparr> consecutiveFailures := 0, healthy := True \<rparr>
         | FetchRejected \<Rightarrow>
             (let b2 = b1\<lparr> consecutiveFailures := consecutiveFailures b1 + 1 \<rparr>
              in if consecutiveFailures b2 > 2 then b2\<lparr> healthy := False \<rparr> else b2))"

definition recordFailure :: "MediaBridgeInstance \<Rightarrow> MediaBridgeInstance" where
  "recordFailure b =
     (let b2 = b\<lparr> consecutiveFailures := consecutiveFailures b + 1 \<rparr>
      in if consecutiveFailures b2 > 2 then b2\<lparr> healthy := False \<rparr> else b2)"

definition recordSuccess :: "MediaBridgeInstance \<Rightarrow> MediaBridgeInstance" where
  "recordSuccess b = b\<lparr> consecutiveFailures := 0, healthy := True \<rparr>"

definition snapshot :: "MediaBridgeInstance \<Rightarrow> MediaBridgeSnapshot" where
  "snapshot b =
     \<lparr> s_id = id_of b,
       s_baseUrl = baseUrl b,
       s_apiKey = apiKey b,
       s_weight = weight b,
       s_healthy = healthy b,
       s_state = state b,
       s_lastCheckedAt = lastCheckedAt b,
       s_latencyMs = lastLatencyMs b,
       s_consecutiveFailures = consecutiveFailures b,
       s_metadata = metadata b \<rparr>"

text \<open>The operations that change an instance after its construction, and a run of them.\<close>

datatype InstanceOp = Probe int int int ProbeOutcome | RecordFailure | RecordSuccess

fun applyOp :: "MediaBridgeInstance \<Rightarrow> InstanceOp \<Rightarrow> MediaBridgeInstance" where
  "applyOp b (Probe start now1 now2 outcome) = probe start now1 now2 outcome b"
| "applyOp b RecordFailure = recordFailure b"
| "applyOp b RecordSuccess = recordSuccess b"

definition runOps :: "MediaBridgeInstance \<Rightarrow> InstanceOp list \<Rightarrow> MediaBridgeInstance" where
  "runOps b ops = foldl applyOp b ops"

text \<open>A failed probe is any outcome but a 2xx response; a run of failed probes is a list
  of them, each with its own clock readings.\<close>

definition probeFailed :: "ProbeOutcome \<Rightarrow> bool" where
  "probeFailed outcome = (outcome \<noteq> ResponseOk)"

fun isFailedProbe :: "InstanceOp \<Rightarrow> bool" where
  "isFailedProbe (Probe start now1 now2 outcome) = probeFailed outcome"
| "isFailedProbe RecordFailure = False"
| "isFailedProbe RecordSuccess = False"


subsection \<open>The pool\<close>

record MediaBridgePool =
  bridges :: "MediaBridgeInstance list"
  probeIntervalMs :: int

text \<open>The constructor: an empty list of definitions throws. (The probe timer it starts
  only calls \<open>probe\<close> on each instance later on.)\<close>

definition newPool :: "MediaBridgeDefinition list \<Rightarrow> int option \<Rightarrow> js_error + MediaBridgePool" where
  "newPool definitions interval =
     (if definitions = [] then
        Inl (Error ''MediaBridgePool requires at least one media bridge definition'')
      else
        Inr \<lparr> bridges = map newInstance definitions,
              probeIntervalMs = (case interval of None \<Rightarrow> 15000 | Some v \<Rightarrow> v) \<rparr>)"

text \<open>\<open>!x\<close> on an optional string: \<open>undefined\<close> and the empty string are falsy.\<close>

definition falsyStr :: "string option \<Rightarrow> bool" where
  "falsyStr x = (case x of None \<Rightarrow> True | Some s \<Rightarrow> s = [])"

text \<open>\<open>recordFailure\<close> and \<open>recordSuccess\<close> of the pool act on the first bridge with the id.\<close>

fun onFirst :: "('a \<Rightarrow> bool) \<Rightarrow> ('a \<Rightarrow> 'a) \<Rightarrow> 'a list \<Rightarrow> 'a list" where
  "onFirst P f [] = []"
| "onFirst P f (x # xs) = (if P x then f x # xs else x # onFirst P f xs)"

definition poolRecordFailure :: "string \<Rightarrow> MediaBridgePool \<Rightarrow> MediaBridgePool" where
  "poolRecordFailure bridgeId pool =
     pool\<lparr> bridges := onFirst (\<lambda>b. id_of b = bridgeId) recordFailure (bridges pool) \<rparr>"

definition poolRecordSuccess :: "string \<Rightarrow> MediaBridgePool \<Rightarrow> MediaBridgePool" where
  "poolRecordSuccess bridgeId pool =
     pool\<lparr> bridges := onFirst (\<lambda>b. id_of b = bridgeId) recordSuccess (bridges pool) \<rparr>"

subsection \<open>Selection\<close>

text \<open>
  A JavaScript string is a sequence of UTF-16 code units (\<open>charCodeAt\<close>). The hash keeps
  a 32-bit integer (\<open>hash |= 0\<close>), so \<open>(hash << 5) - hash + c\<close> is word arithmetic;
  \<open>Math.abs\<close> is taken on the signed reading and can be \<open>2 ^ 31\<close>.
\<close>

type_synonym jsstring = "16 word list"

definition hash :: "jsstring \<Rightarrow> int" where
  "hash input = \<bar>sint (foldl (\<lambda>h c. push_bit 5 h - h + ucast c) (0 :: 32 word) input)\<bar>"

record BridgeSelectionOptions =
  affinityKey :: "jsstring option"
  allowUnhealthy :: "bool option"

definition candidates :: "MediaBridgePool \<Rightarrow> BridgeSelectionOptions option \<Rightarrow> MediaBridgeInstance list" where
  "candidates pool options =
     (let allow = (case options of None \<Rightarrow> False
                   | Some opt \<Rightarrow> (case allowUnhealthy opt of None \<Rightarrow> False | Some a \<Rightarrow> a));
          healthyOnes = filter healthy (bridges pool)
      in if healthyOnes \<noteq> [] \<and> \<not> allow then healthyOnes else bridges pool)"

text \<open>The two \<open>for\<close> loops: \<open>cursor += bridge.weight\<close>, then the first bridge at which
  the mark is below (at or below) the cursor.\<close>

fun firstAbove :: "jsnum \<Rightarrow> jsnum \<Rightarrow> MediaBridgeInstance list \<Rightarrow> MediaBridgeInstance option" where
  "firstAbove m cursor [] = None"
| "firstAbove m cursor (b # bs) =
     (if jsLess m (jsAdd cursor (weight b)) then Some b
      else firstAbove m (jsAdd cursor (weight b)) bs)"

fun firstReaching :: "jsnum \<Rightarrow> jsnum \<Rightarrow> MediaBridgeInstance list \<Rightarrow> MediaBridgeInstance option" where
  "firstReaching pick cursor [] = None"
| "firstReaching pick cursor (b # bs) =
     (if jsLessEq pick (jsAdd cursor (weight b)) then Some b
      else firstReaching pick (jsAdd cursor (weight b)) bs)"

text \<open>\<open>candidates.reduce((sum, bridge) => sum + bridge.weight, 0)\<close>.\<close>

definition totalWeight :: "MediaBridgeInstance list \<Rightarrow> jsnum" where
  "totalWeight cs = foldl (\<lambda>sum b. jsAdd sum (weight b)) (Num 0) cs"

definition keyOf :: "BridgeSelectionOptions option \<Rightarrow> jsstring option" where
  "keyOf options = (case options of None \<Rightarrow> None | Some opt \<Rightarrow> affinityKey opt)"

text \<open>\<open>getBridge\<close>; \<open>rnd\<close> is the value of \<open>Math.random()\<close>, a double that is at least 0
  and less than 1. An affinity key that is the empty string is falsy, so the guard
  \<open>options?.affinityKey && candidates.length > 1\<close> is false for it.\<close>

definition getBridge :: "MediaBridgePool \<Rightarrow> BridgeSelectionOptions option \<Rightarrow> rat \<Rightarrow> js_error + MediaBridgeSnapshot" where
  "getBridge pool options rnd =
     (let cs = candidates pool options
      in if cs = [] then Inl (Error ''No media bridges configured'')
         else
           (let byAffinity =
                  (case keyOf options of
                     None \<Rightarrow> None
                   | Some key \<Rightarrow>
                       if key \<noteq> [] \<and> length cs > 1 then
                         firstAbove (jsRem (Num (of_int (hash key))) (totalWeight cs)) (Num 0) cs
                       else None);
                byWeight =
                  (case byAffinity of
                     Some b \<Rightarrow> Some b
                   | None \<Rightarrow> firstReaching (jsTimes (Num rnd) (totalWeight cs)) (Num 0) cs);
                selected = (case byWeight of Some b \<Rightarrow> b | None \<Rightarrow> hd cs)
            in Inr (snapshot selected)))"

text \<open>What the constructor of an instance can leave in \<open>weight\<close>: \<open>Math.max(1, w)\<close> is
  NaN or at least 1.\<close>

definition constructedWeight :: "jsnum \<Rightarrow> bool" where
  "constructedWeight w = (w = NaN \<or> jsLessEq (Num 1) w)"

text \<open>What a caller can tell of an instance and its health: the id, the weight and the
  health flag; and the same of a snapshot.\<close>

definition bridgeIdentity :: "MediaBridgeInstance \<Rightarrow> string \<times> jsnum \<times> bool" where
  "bridgeIdentity b = (id_of b, weight b, healthy b)"

definition snapshotIdentity :: "MediaBridgeSnapshot \<Rightarrow> string \<times> jsnum \<times> bool" where
  "snapshotIdentity s = (s_id s, s_weight s, s_healthy s)"


section \<open>Participant ordering (api\_productions.ts, \<open>sortParticipants\<close>)\<close>

record UserResponse =
  sessionId :: "string option"
  endpointId :: "string option"
  name :: "string option"
  isActive :: bool
  isWhip :: bool

text \<open>
  \<open>toLocaleLowerCase\<close> and \<open>localeCompare\<close> belong to the JavaScript runtime and depend on
  its locale data, so they are parameters of the model: \<open>localeCompareBase\<close> is
  \<open>localeCompare\<close> with \<open>{ sensitivity: 'base' }\<close>, \<open>localeCompare\<close> the call without
  options. Each returns a negative number, zero or a positive number.
\<close>

record Collation =
  toLocaleLowerCase :: "string \<Rightarrow> string"
  localeCompareBase :: "string \<Rightarrow> string \<Rightarrow> int"
  localeCompare :: "string \<Rightarrow> string \<Rightarrow> int"

text \<open>\<open>a.name?.toLocaleLowerCase?.() ?? ''\<close> and \<open>a.sessionId ?? ''\<close>.\<close>

definition nameKey :: "Collation \<Rightarrow> UserResponse \<Rightarrow> string" where
  "nameKey c a = (case name a of None \<Rightarrow> [] | Some n \<Rightarrow> toLocaleLowerCase c n)"

definition idKey :: "UserResponse \<Rightarrow> string" where
  "idKey a = (case sessionId a of None \<Rightarrow> [] | Some i \<Rightarrow> i)"

text \<open>The comparison function handed to \<open>sort\<close>.\<close>

definition compareParticipants :: "Collation \<Rightarrow> UserResponse \<Rightarrow> UserResponse \<Rightarrow> int" where
  "compareParticipants c a b =
     (let nameA = nameKey c a; nameB = nameKey c b
      in if nameA \<noteq> [] \<or> nameB \<noteq> [] then
           (let cmp = localeCompareBase c nameA nameB
            in if cmp \<noteq> 0 then cmp else localeCompare c (idKey a) (idKey b))
         else localeCompare c (idKey a) (idKey b))"

text \<open>
  \<open>Array.prototype.sort\<close> with a comparison function is a stable sort: elements that
  compare equal keep their order. It is computed here by stable insertion; for a
  consistent comparison function every stable sort returns the same array.
\<close>

fun insertBy :: "('a \<Rightarrow> 'a \<Rightarrow> int) \<Rightarrow> 'a \<Rightarrow> 'a list \<Rightarrow> 'a list" where
  "insertBy cmp x [] = [x]"
| "insertBy cmp x (y # ys) = (if cmp x y \<le> 0 then x # y # ys else y # insertBy cmp x ys)"

definition arraySort :: "('a \<Rightarrow> 'a \<Rightarrow> int) \<Rightarrow> 'a list \<Rightarrow> 'a list" where
  "arraySort cmp xs = foldr (insertBy cmp) xs []"

definition sortParticipants :: "Collation \<Rightarrow> UserResponse list \<Rightarrow> UserResponse list" where
  "sortParticipants c participants = arraySort (compareParticipants c) participants"

text \<open>
  The same function on references, to see what it does to its argument: arrays live in
  a store, addressed by their index; \<open>[...participants]\<close> allocates a copy, and
  \<open>sort\<close> sorts that copy in place and returns its reference.
\<close>

type_synonym 'a store = "'a list list"






text \<open>A sample collation for evaluating the definitions: ASCII lower-casing (a capital
  letter gets bit 5, the value 32, set), and strings compared code unit by code unit.\<close>

definition asciiLower :: "char \<Rightarrow> char" where
  "asciiLower ch =
     (if 65 \<le> (of_char ch :: nat) \<and> (of_char ch :: nat) \<le> 90
      then (case ch of Char b0 b1 b2 b3 b4 b5 b6 b7 \<Rightarrow> Char b0 b1 b2 b3 b4 True b6 b7)
      else ch)"

fun codeUnitCompare :: "string \<Rightarrow> string \<Rightarrow> int" where
  "codeUnitCompare [] [] = 0"
| "codeUnitCompare [] (y # ys) = - 1"
| "codeUnitCompare (x # xs) [] = 1"
| "codeUnitCompare (x # xs) (y # ys) =
     (if (of_char x :: nat) < of_char y then - 1
      else if (of_char y :: nat) < of_char x then 1
      else codeUnitCompare xs ys)"

definition sampleCollation :: Collation where
  "sampleCollation =
     \<lparr> toLocaleLowerCase = map asciiLower,
       localeCompareBase = (\<lambda>a b. codeUnitCompare (map asciiLower a) (map asciiLower b)),
       localeCompare = codeUnitCompare \<rparr>"


section \<open>HTTP handlers (api\_productions.ts)\<close>

subsection \<open>Documents and replies\<close>

record SmbAudio =
  ssrcs :: "nat list option"

record SmbEndpointDescription =
  audio :: "SmbAudio option"

text \<open>Session, line and production documents. The production id of a session is the
  string the client sent when it created the session; it is kept as its UTF-16 code
  units, like the \<open>productionId\<close> of a request path, which \<open>parseInt\<close> reads unit by
  unit.\<close>

record UserSession =
  us_id :: string
  us_productionId :: jsstring
  us_lineId :: string
  us_name :: "string option"
  us_endpointId :: "string option"
  us_sessionDescription :: "SmbEndpointDescription option"
  us_isActive :: bool
  us_isWhip :: bool
  us_isExpired :: bool
  us_lastSeen :: int

record Line =
  line_id :: string
  line_name :: string
  smbConferenceId :: string
  programOutputLine :: bool

record Production =
  prod_id :: int
  prod_name :: string
  lines :: "Line list"

datatype reply_payload =
    SessionResponse string string
  | ErrorResponse string "string option"
  | Text string
  | Participants "UserResponse list"
  | NoPayload

record reply =
  statusCode :: nat
  payload :: reply_payload

text \<open>The awaited calls a handler makes on its collaborators, in the order made.\<close>

datatype call =
    CreateConferenceForLine | CreateUserSession | CreateEndpoint | UpdateSession
  | CreateConnection | RequireProduction | RequireLine | HandleAnswerRequest

text \<open>The message of the 410 replies: \<open>User session id\<close>, the id between double quotes
  (character 0x22), \<open>not found.\<close>\<close>

definition notFoundMessage :: "string \<Rightarrow> string" where
  "notFoundMessage sid =
     ''User session id '' @ [CHR 0x22] @ sid @ [CHR 0x22] @ '' not found.''"

subsection \<open>\<open>POST /session\<close>\<close>

text \<open>
  The handler awaits each collaborator once, so the outcome of each call (a value, or the
  error it throws) is an input. \<open>sessionId\<close> and \<open>endpointId\<close> are the two results of
  \<open>uuidv4()\<close>. The result pairs the reply with the calls made.
\<close>

record NewSession =
  ns_lineId :: string
  ns_productionId :: jsstring
  ns_username :: string

record SessionCalls =
  createConferenceForLine :: "js_error + string"
  createUserSession :: "js_error + unit"
  createEndpoint :: "js_error + SmbEndpointDescription"
  updateSession :: "js_error + bool"
  createConnection :: "js_error + string option"

definition postSessionTry :: "SessionCalls \<Rightarrow> string \<Rightarrow> (js_error + reply) \<times> call list" where
  "postSessionTry env sid =
     (case createConferenceForLine env of
        Inl err \<Rightarrow> (Inl err, [CreateConferenceForLine])
      | Inr conferenceId \<Rightarrow>
     (case createUserSession env of
        Inl err \<Rightarrow> (Inl err, [CreateConferenceForLine, CreateUserSession])
      | Inr u \<Rightarrow>
     (case createEndpoint env of
        Inl err \<Rightarrow> (Inl err, [CreateConferenceForLine, CreateUserSession, CreateEndpoint])
      | Inr endpoint \<Rightarrow>
     (case audio endpoint of
        None \<Rightarrow> (Inl (Error ''Missing audio when creating sdp offer for endpoint''),
                 [CreateConferenceForLine, CreateUserSession, CreateEndpoint])
      | Some au \<Rightarrow>
     (case ssrcs au of
        None \<Rightarrow> (Inl (Error ''Missing ssrcs when creating sdp offer for endpoint''),
                 [CreateConferenceForLine, CreateUserSession, CreateEndpoint])
      | Some ss \<Rightarrow>
     (case updateSession env of
        Inl err \<Rightarrow> (Inl err, [CreateConferenceForLine, CreateUserSession, CreateEndpoint,
                             UpdateSession])
      | Inr ok \<Rightarrow>
     (case createConnection env of
        Inl err \<Rightarrow> (Inl err, [CreateConferenceForLine, CreateUserSession, CreateEndpoint,
                             UpdateSession, CreateConnection])
      | Inr sdpOffer \<Rightarrow>
          (if \<not> falsyStr sdpOffer then
             Inr \<lparr> statusCode = 201, payload = SessionResponse sid (the sdpOffer) \<rparr>
           else
             Inr \<lparr> statusCode = 400,
                   payload = ErrorResponse ''Could not establish a media connection''
                               (Some ''Failed to generate sdp offer for endpoint'') \<rparr>,
           [CreateConferenceForLine, CreateUserSession, CreateEndpoint, UpdateSession,
            CreateConnection]))))))))"

definition postSession :: "SessionCalls \<Rightarrow> string \<Rightarrow> reply \<times> call list" where
  "postSession env sid =
     (case postSessionTry env sid of
        (Inr r, calls) \<Rightarrow> (r, calls)
      | (Inl err, calls) \<Rightarrow>
          (\<lparr> statusCode = 500,
             payload = Text (''Exception thrown when trying to create endpoint: ''
                             @ error_toString err) \<rparr>, calls))"

text \<open>The reply carries an SDP offer only in a \<open>SessionResponse\<close>.\<close>

fun offerOf :: "reply_payload \<Rightarrow> string option" where
  "offerOf (SessionResponse sid sdp) = Some sdp"
| "offerOf other = None"

subsection \<open>\<open>PATCH /session/:sessionId\<close>\<close>

text \<open>
  \<open>dbManager.getSession\<close> is read up to six times while other requests write, so its
  outcome is a function of the number of the read (0 for the first). \<open>retryRead\<close> is the
  \<open>for\<close> loop: \<open>i\<close> counts the re-reads, \<open>slept\<close> adds up the \<open>setTimeout\<close> waits in
  milliseconds.
\<close>

definition needsRetry :: "UserSession option \<Rightarrow> bool" where
  "needsRetry userSession =
     (case userSession of None \<Rightarrow> True | Some s \<Rightarrow> us_sessionDescription s = None)"

function retryRead :: "(nat \<Rightarrow> js_error + UserSession option) \<Rightarrow> nat \<Rightarrow> nat \<Rightarrow> UserSession option
    \<Rightarrow> js_error + (UserSession option \<times> nat \<times> nat)" where
  "retryRead readSession i slept userSession =
     (if i < 5 \<and> needsRetry userSession then
        (case readSession (Suc i) of
           Inl err \<Rightarrow> Inl err
         | Inr userSession2 \<Rightarrow> retryRead readSession (Suc i) (slept + 100) userSession2)
      else Inr (userSession, i, slept))"
  by pat_completeness auto
termination
  by (relation "measure (\<lambda>(readSession, i, slept, userSession). 5 - i)") auto

declare retryRead.simps [simp del]

record PatchCalls =
  getSession :: "nat \<Rightarrow> js_error + UserSession option"
  p_updateSession :: "js_error + bool"
  requireProduction_r :: "js_error + Production"
  requireLine_r :: "js_error + Line"
  handleAnswerRequest :: "js_error + unit"

text \<open>The handler's steps once the session document is at hand.\<close>

definition applyAnswer :: "PatchCalls \<Rightarrow> UserSession \<Rightarrow> (js_error + reply) \<times> call list" where
  "applyAnswer env userSession =
     (case p_updateSession env of
        Inl err \<Rightarrow> (Inl err, [UpdateSession])
      | Inr ok \<Rightarrow>
     (case requireProduction_r env of
        Inl err \<Rightarrow> (Inl err, [UpdateSession, RequireProduction])
      | Inr production \<Rightarrow>
     (case requireLine_r env of
        Inl err \<Rightarrow> (Inl err, [UpdateSession, RequireProduction, RequireLine])
      | Inr line \<Rightarrow>
     (case us_sessionDescription userSession of
        None \<Rightarrow> (Inl (Error ''Could not get connection endpoint description''),
                 [UpdateSession, RequireProduction, RequireLine])
      | Some connectionEndpointDescription \<Rightarrow>
     (if falsyStr (us_endpointId userSession) then
        (Inl (Error ''Could not get connection endpoint id''),
         [UpdateSession, RequireProduction, RequireLine])
      else
     (case handleAnswerRequest env of
        Inl err \<Rightarrow> (Inl err, [UpdateSession, RequireProduction, RequireLine,
                             HandleAnswerRequest])
      | Inr u \<Rightarrow>
          (Inr \<lparr> statusCode = 204, payload = NoPayload \<rparr>,
           [UpdateSession, RequireProduction, RequireLine, HandleAnswerRequest])))))))"

text \<open>The body of the \<open>try\<close>: the first read, the retry loop, the 410 reply when no
  document was found, and the steps above otherwise.\<close>

definition patchSessionTry :: "PatchCalls \<Rightarrow> string \<Rightarrow> (js_error + reply) \<times> call list" where
  "patchSessionTry env sid =
     (case getSession env 0 of
        Inl err \<Rightarrow> (Inl err, [])
      | Inr firstRead \<Rightarrow>
     (case retryRead (getSession env) 0 0 firstRead of
        Inl err \<Rightarrow> (Inl err, [])
      | Inr (None, i, slept) \<Rightarrow>
          (Inr \<lparr> statusCode = 410, payload = ErrorResponse (notFoundMessage sid) None \<rparr>, [])
      | Inr (Some userSession, i, slept) \<Rightarrow> applyAnswer env userSession))"

definition patchSession :: "PatchCalls \<Rightarrow> string \<Rightarrow> reply \<times> call list" where
  "patchSession env sid =
     (case patchSessionTry env sid of
        (Inr r, calls) \<Rightarrow> (r, calls)
      | (Inl err, calls) \<Rightarrow>
          (\<lparr> statusCode = 500,
             payload = Text (''Exception thrown when trying to configure endpoint: ''
                             @ error_toString err) \<rparr>, calls))"

text \<open>The number of re-reads and the time slept by the retry loop of a request; no loop
  ran when the first read threw.\<close>

definition patchRetries :: "PatchCalls \<Rightarrow> (nat \<times> nat) option" where
  "patchRetries env =
     (case getSession env 0 of
        Inl err \<Rightarrow> None
      | Inr firstRead \<Rightarrow>
          (case retryRead (getSession env) 0 0 firstRead of
             Inl err \<Rightarrow> None
           | Inr (userSession, i, slept) \<Rightarrow> Some (i, slept)))"


subsection \<open>The session store (db/couchdb.ts, db/mongodb.ts)\<close>

text \<open>
  \<open>getSessionsByQuery\<close> hands the query to the store as an equality selector: a document
  matches when every field the query gives has that value. The store is either its
  session documents, in the order in which it enumerates them, or, when it cannot be
  reached (\<open>Database not connected\<close>, a rejected request), the error the call throws.
  The MongoDB variant returns every match (\<open>find(mongoQuery).toArray()\<close>). The CouchDB
  variant sends \<open>{ selector }\<close> to \<open>_find\<close> without a \<open>limit\<close>, and CouchDB then
  returns no more than its default of 25 documents.
\<close>

record SessionQuery =
  q_productionId :: "jsstring option"
  q_lineId :: "string option"
  q_isExpired :: "bool option"

definition matches :: "SessionQuery \<Rightarrow> UserSession \<Rightarrow> bool" where
  "matches q s =
     ((case q_productionId q of None \<Rightarrow> True | Some v \<Rightarrow> us_productionId s = v) \<and>
      (case q_lineId q of None \<Rightarrow> True | Some v \<Rightarrow> us_lineId s = v) \<and>
      (case q_isExpired q of None \<Rightarrow> True | Some v \<Rightarrow> us_isExpired s = v))"

datatype Backend = MongoDb | CouchDb

definition couchFindLimit :: nat where
  "couchFindLimit = 25"

record Store =
  backend :: Backend
  documents :: "UserSession list"

definition getSessionsByQuery :: "js_error + Store \<Rightarrow> SessionQuery \<Rightarrow> js_error + UserSession list" where
  "getSessionsByQuery db q =
     (case db of
        Inl err \<Rightarrow> Inl err
      | Inr store \<Rightarrow>
          (case backend store of
             MongoDb \<Rightarrow> Inr (filter (matches q) (documents store))
           | CouchDb \<Rightarrow> Inr (take couchFindLimit (filter (matches q) (documents store)))))"

subsection \<open>\<open>POST /production/:productionId/line/:lineId/participants\<close> (long poll)\<close>

text \<open>
  The handler awaits a promise whose executor arms a timer of 25000 ms
  (\<open>setTimeout\<close>) and registers the listener \<open>onChange\<close> for the next \<open>users:change\<close>
  (\<open>once\<close>). What is pending of that is the state \<open>Waiting\<close>: whether the listener is
  registered, whether the timer is armed, and the time, in milliseconds after the
  subscription, at which the promise was resolved, if it was.
\<close>

definition timeoutMs :: nat where
  "timeoutMs = 25000"

record Waiting =
  listening :: bool
  timerArmed :: bool
  resolvedAt :: "nat option"

text \<open>The state the executor leaves.\<close>

definition subscribed :: Waiting where
  "subscribed = \<lparr> listening = True, timerArmed = True, resolvedAt = None \<rparr>"

text \<open>\<open>resolve()\<close>: a promise is settled by the first call; later calls do nothing.\<close>

definition resolve :: "nat \<Rightarrow> Waiting \<Rightarrow> Waiting" where
  "resolve t w = (if resolvedAt w = None then w\<lparr> resolvedAt := Some t \<rparr> else w)"

text \<open>The listener \<open>onChange\<close>: \<open>clearTimeout(timer); resolve()\<close>. The callback of the
  timer: \<open>productionManager.off('users:change', onChange); resolve()\<close>.\<close>

definition onChange :: "nat \<Rightarrow> Waiting \<Rightarrow> Waiting" where
  "onChange t w = resolve t (w\<lparr> timerArmed := False \<rparr>)"

definition onTimeout :: "nat \<Rightarrow> Waiting \<Rightarrow> Waiting" where
  "onTimeout t w = resolve t (w\<lparr> listening := False \<rparr>)"

text \<open>An emission of \<open>users:change\<close> at time \<open>t\<close>: a listener registered with \<open>once\<close> is
  removed and then called. The timer coming due at time \<open>t\<close>: an armed timer is disarmed
  and its callback called.\<close>

definition emitUsersChange :: "nat \<Rightarrow> Waiting \<Rightarrow> Waiting" where
  "emitUsersChange t w = (if listening w then onChange t (w\<lparr> listening := False \<rparr>) else w)"

definition timerDue :: "nat \<Rightarrow> Waiting \<Rightarrow> Waiting" where
  "timerDue t w = (if timerArmed w then onTimeout t (w\<lparr> timerArmed := False \<rparr>) else w)"

text \<open>
  The event loop after the subscription. The production manager emits \<open>users:change\<close>
  any number of times; \<open>gaps\<close> lists the milliseconds between one emission and the next,
  the first counted from the subscription at time 0. The timer comes due at
  \<open>timeoutMs\<close>, before an emission that is not earlier, and at the latest when no emission
  is left.
\<close>

fun eventLoop :: "nat \<Rightarrow> nat list \<Rightarrow> Waiting \<Rightarrow> Waiting" where
  "eventLoop now [] w = timerDue timeoutMs w"
| "eventLoop now (gap # gaps) w =
     (if timeoutMs \<le> now + gap
      then eventLoop (now + gap) gaps (emitUsersChange (now + gap) (timerDue timeoutMs w))
      else eventLoop (now + gap) gaps (emitUsersChange (now + gap) w))"

text \<open>The participant the long poll, and the handler of a single line, make of a session
  document.\<close>

definition toParticipant :: "UserSession \<Rightarrow> UserResponse" where
  "toParticipant s =
     \<lparr> sessionId = Some (us_id s),
       endpointId = us_endpointId s,
       name = us_name s,
       isActive = (if us_isWhip s then True else us_isActive s),
       isWhip = us_isWhip s \<rparr>"


text \<open>What the handler does once the promise is resolved: the query, and the reply.
  \<open>db\<close> is the store as the query finds it.\<close>

definition participantsReply :: "Collation \<Rightarrow> js_error + Store \<Rightarrow> jsstring \<Rightarrow> string \<Rightarrow> reply" where
  "participantsReply c db productionId lineId =
     (case getSessionsByQuery db
             \<lparr> q_productionId = Some productionId, q_lineId = Some lineId,
               q_isExpired = Some False \<rparr> of
        Inl err \<Rightarrow>
          \<lparr> statusCode = 500,
            payload = Text (''Exception thrown when trying to set connection status for session: ''
                            @ error_toString err) \<rparr>
      | Inr dbSessions \<Rightarrow>
          \<lparr> statusCode = 200,
            payload = Participants (sortParticipants c (map toParticipant dbSessions)) \<rparr>)"

text \<open>The handler: \<open>dbAt t\<close> is the store as a query issued at time \<open>t\<close> finds it. The
  result is the time at which the handler answers and its reply, or \<open>None\<close> when the
  promise is never resolved and the request never answered.\<close>

definition participantsPoll :: "Collation \<Rightarrow> nat list \<Rightarrow> (nat \<Rightarrow> js_error + Store)
    \<Rightarrow> jsstring \<Rightarrow> string \<Rightarrow> (nat \<times> reply) option" where
  "participantsPoll c gaps dbAt productionId lineId =
     (case resolvedAt (eventLoop 0 gaps subscribed) of
        None \<Rightarrow> None
      | Some t \<Rightarrow> Some (t, participantsReply c (dbAt t) productionId lineId))"

subsection \<open>The production manager (production\_manager.ts)\<close>













subsection \<open>\<open>DELETE /production/:productionId/line/:lineId\<close>\<close>


subsection \<open>\<open>GET /heartbeat/:sessionId\<close>\<close>



section \<open>Properties and sample inputs\<close>

text \<open>The relation between the health flag and the failure counter.\<close>

definition healthInvariant :: "MediaBridgeInstance \<Rightarrow> bool" where
  "healthInvariant b = (\<not> healthy b \<longrightarrow> 3 \<le> consecutiveFailures b)"

text \<open>Sample inputs on which the theorems below are evaluated.\<close>

definition sampleDefA :: MediaBridgeDefinition where
  "sampleDefA = \<lparr> d_id = ''a'', d_baseUrl = ''http://a'', d_apiKey = None, d_weight = None,
                   d_healthCheckPath = None, d_metadata = None \<rparr>"

definition sampleDefB :: MediaBridgeDefinition where
  "sampleDefB = \<lparr> d_id = ''b'', d_baseUrl = ''http://b'', d_apiKey = None, d_weight = None,
                   d_healthCheckPath = None, d_metadata = None \<rparr>"

definition samplePool :: MediaBridgePool where
  "samplePool = \<lparr> bridges = [newInstance sampleDefA, newInstance sampleDefB],
                   probeIntervalMs = 15000 \<rparr>"

text \<open>The sample pool after a probe of each bridge was answered 2xx: the same bridges,
  weights and health, with later check times.\<close>

definition probedPool :: MediaBridgePool where
  "probedPool = samplePool\<lparr> bridges := map (probe 0 20 21 ResponseOk) (bridges samplePool) \<rparr>"

definition keyed :: "jsstring \<Rightarrow> BridgeSelectionOptions option" where
  "keyed k = Some \<lparr> affinityKey = Some k, allowUnhealthy = None \<rparr>"

definition threeFailures :: "InstanceOp list" where
  "threeFailures = [Probe 0 20 20 ResponseNotOk, Probe 15000 15030 15031 FetchRejected,
                    Probe 30000 30010 30010 ResponseNotOk]"

text \<open>An endpoint description that lacks the audio part or, in it, the ssrcs.\<close>

definition incompleteEndpoint :: "SmbEndpointDescription \<Rightarrow> bool" where
  "incompleteEndpoint e = (case audio e of None \<Rightarrow> True | Some au \<Rightarrow> ssrcs au = None)"

text \<open>Every call of \<open>POST /session\<close> returns, the endpoint description is complete, and
  \<open>createConnection\<close> returns \<open>sdpOffer\<close>.\<close>

definition offerSteps :: "SessionCalls \<Rightarrow> string option \<Rightarrow> bool" where
  "offerSteps env sdpOffer =
     (case (createConferenceForLine env, createUserSession env, createEndpoint env,
            updateSession env, createConnection env) of
        (Inr conf, Inr u, Inr endpoint, Inr ok, Inr sdp) \<Rightarrow>
           \<not> incompleteEndpoint endpoint \<and> sdp = sdpOffer
      | other \<Rightarrow> False)"

definition sampleCalls :: SessionCalls where
  "sampleCalls =
     \<lparr> createConferenceForLine = Inr ''conf-1'', createUserSession = Inr (),
       createEndpoint = Inr \<lparr> audio = Some \<lparr> ssrcs = Some [1234] \<rparr> \<rparr>,
       updateSession = Inr True, createConnection = Inr (Some ''v=0'') \<rparr>"

definition noAudioCalls :: SessionCalls where
  "noAudioCalls = sampleCalls\<lparr> createEndpoint := Inr \<lparr> audio = None \<rparr> \<rparr>"

definition noSsrcsCalls :: SessionCalls where
  "noSsrcsCalls = sampleCalls\<lparr> createEndpoint := Inr \<lparr> audio = Some \<lparr> ssrcs = None \<rparr> \<rparr> \<rparr>"

text \<open>Read number \<open>j\<close> of \<open>getSession\<close> returned and asks for another read: no document,
  or one without its \<open>sessionDescription\<close>.\<close>

definition retrying :: "(nat \<Rightarrow> js_error + UserSession option) \<Rightarrow> nat \<Rightarrow> bool" where
  "retrying rd j = (case rd j of Inl err \<Rightarrow> False | Inr u \<Rightarrow> needsRetry u)"

text \<open>The session document with its \<open>sessionDescription\<close> is found at read \<open>k\<close>, the first
  read or one of the five re-reads, every earlier read having asked for a retry.\<close>

definition sessionReadyAt :: "PatchCalls \<Rightarrow> nat \<Rightarrow> UserSession \<Rightarrow> bool" where
  "sessionReadyAt env k s =
     (k \<le> 5 \<and> list_all (retrying (getSession env)) [0..<k] \<and>
      getSession env k = Inr (Some s) \<and> us_sessionDescription s \<noteq> None)"

text \<open>The session id is still unknown at the fifth re-read.\<close>

definition sessionUnknown :: "PatchCalls \<Rightarrow> bool" where
  "sessionUnknown env =
     (list_all (retrying (getSession env)) [0..<5] \<and> getSession env 5 = Inr None)"

text \<open>No other step fails: the document has an endpoint id and every call returns.\<close>

definition answerSucceeds :: "PatchCalls \<Rightarrow> UserSession \<Rightarrow> bool" where
  "answerSucceeds env s =
     (\<not> falsyStr (us_endpointId s) \<and> \<not> isl (p_updateSession env) \<and>
      \<not> isl (requireProduction_r env) \<and> \<not> isl (requireLine_r env) \<and>
      \<not> isl (handleAnswerRequest env))"

text \<open>A session on line \<open>l1\<close> of production 1; its production id is the string \<open>1\<close>
  (the code unit 0x31).\<close>

definition sampleSession :: UserSession where
  "sampleSession =
     \<lparr> us_id = ''s1'', us_productionId = [0x31], us_lineId = ''l1'', us_name = Some ''Ann'',
       us_endpointId = Some ''e1'',
       us_sessionDescription = Some \<lparr> audio = Some \<lparr> ssrcs = Some [1234] \<rparr> \<rparr>,
       us_isActive = True, us_isWhip = False, us_isExpired = False, us_lastSeen = 1000 \<rparr>"

definition sampleLine :: Line where
  "sampleLine = \<lparr> line_id = ''l1'', line_name = ''Control Room'', smbConferenceId = ''conf-1'',
                   programOutputLine = False \<rparr>"

definition sampleProduction :: Production where
  "sampleProduction = \<lparr> prod_id = 1, prod_name = ''Studio A'', lines = [sampleLine] \<rparr>"

text \<open>A session whose document becomes readable at the second re-read, and a session id
  that was never created.\<close>

definition lateWrite :: PatchCalls where
  "lateWrite =
     \<lparr> getSession = (\<lambda>j. if j < 2 then Inr None else Inr (Some sampleSession)),
       p_updateSession = Inr True, requireProduction_r = Inr sampleProduction,
       requireLine_r = Inr sampleLine, handleAnswerRequest = Inr () \<rparr>"

definition neverCreated :: PatchCalls where
  "neverCreated = lateWrite\<lparr> getSession := (\<lambda>j. Inr None) \<rparr>"


text \<open>A store that holds the sample session, at any time, and a store that cannot be
  reached, at any time.\<close>

definition sampleStore :: "nat \<Rightarrow> js_error + Store" where
  "sampleStore t = Inr \<lparr> backend = CouchDb, documents = [sampleSession] \<rparr>"

definition unreachableStore :: "nat \<Rightarrow> js_error + Store" where
  "unreachableStore t = Inl (Error ''Database not connected'')"

text \<open>The store returns every document that matches the query: always on MongoDB, and on
  CouchDB when no more than 25 documents match.\<close>

definition returnsEveryMatch :: "Store \<Rightarrow> SessionQuery \<Rightarrow> bool" where
  "returnsEveryMatch store q =
     (backend store = MongoDb \<or> length (filter (matches q) (documents store)) \<le> couchFindLimit)"

text \<open>The query of the long poll: the sessions of the line that are not expired.\<close>

definition lineQuery :: "jsstring \<Rightarrow> string \<Rightarrow> SessionQuery" where
  "lineQuery productionId lineId =
     \<lparr> q_productionId = Some productionId, q_lineId = Some lineId, q_isExpired = Some False \<rparr>"

text \<open>The time at which a poll is to resolve: that of the first emission of
  \<open>users:change\<close> if it comes before the 25000 ms are over, and 25000 ms otherwise.\<close>

definition expectedResolution :: "nat list \<Rightarrow> nat" where
  "expectedResolution gaps =
     (case gaps of [] \<Rightarrow> timeoutMs | gap # rest \<Rightarrow> if gap < timeoutMs then gap else timeoutMs)"



definition ann :: UserResponse where
  "ann = \<lparr> sessionId = Some ''s1'', endpointId = Some ''e1'', name = Some ''Ann'',
            isActive = True, isWhip = False \<rparr>"

definition bob :: UserResponse where
  "bob = \<lparr> sessionId = Some ''s2'', endpointId = Some ''e2'', name = Some ''bob'',
            isActive = True, isWhip = False \<rparr>"

definition ann2 :: UserResponse where
  "ann2 = \<lparr> sessionId = Some ''s0'', endpointId = Some ''e3'', name = Some ''ann'',
             isActive = False, isWhip = False \<rparr>"

section \<open>Numbers: rounding\<close>

lemma bitLength_nonpos: "n \<le> 0 \<Longrightarrow> bitLength n = 0"
  by (subst bitLength.simps) simp

lemma bitLength_pos: "0 < n \<Longrightarrow> bitLength n = 1 + bitLength (n div 2)"
  by (subst bitLength.simps) simp

lemma bitLength_nonneg: "0 \<le> bitLength n"
  by (induction n rule: bitLength.induct) (subst bitLength.simps, simp)

lemma bitLength_ge1: "0 < n \<Longrightarrow> 1 \<le> bitLength n"
  using bitLength_pos[of n] bitLength_nonneg[of "n div 2"] by simp

lemma bitLength_1: "bitLength 1 = 1"
  by (simp add: bitLength_pos bitLength_nonpos)

lemma bitLength_2: "bitLength 2 = 2"
  by (simp add: bitLength_pos bitLength_1)

text \<open>A positive integer is at least the power of two its length stands for.\<close>

lemma bitLength_lower: "0 < n \<Longrightarrow> 2 ^ nat (bitLength n - 1) \<le> n"
proof (induction n rule: bitLength.induct)
  case (1 n)
  show ?case
  proof (cases "n = 1")
    case True
    then show ?thesis by (simp add: bitLength_1)
  next
    case False
    then have half: "0 < n div 2" using "1.prems" by simp
    have ih: "2 ^ nat (bitLength (n div 2) - 1) \<le> n div 2"
      using "1.IH" "1.prems" half by simp
    have b: "bitLength n - 1 = bitLength (n div 2)"
      using bitLength_pos[OF "1.prems"] by simp
    have "nat (bitLength (n div 2)) = Suc (nat (bitLength (n div 2) - 1))"
      using bitLength_ge1[OF half] by simp
    then have "(2 :: int) ^ nat (bitLength n - 1) = 2 * 2 ^ nat (bitLength (n div 2) - 1)"
      unfolding b by simp
    also have "\<dots> \<le> 2 * (n div 2)" using ih by simp
    also have "\<dots> \<le> n" by simp
    finally show ?thesis .
  qed
qed

lemma pow2_pos: "0 < pow2 e"
  by (simp add: pow2_def)

lemma pow2_shift: "0 \<le> e \<Longrightarrow> pow2 e = 4503599627370496 * pow2 (e - 52)"
proof (cases "52 \<le> e")
  case True
  then have "nat e = 52 + nat (e - 52)" by simp
  then have "(2 :: rat) ^ nat e = 2 ^ 52 * 2 ^ nat (e - 52)" by (simp only: power_add)
  then show ?thesis using True by (simp add: pow2_def)
next
  case False
  assume e: "0 \<le> e"
  have "52 = nat e + nat (52 - e)" using e False by simp
  then have "(2 :: rat) ^ 52 = 2 ^ nat e * 2 ^ nat (52 - e)" by (simp only: power_add)
  then have "(2 :: rat) ^ nat e * 2 ^ nat (52 - e) = 4503599627370496" by simp
  then have "(2 :: rat) ^ nat e = 4503599627370496 / 2 ^ nat (52 - e)"
    by (simp add: eq_divide_eq)
  then show ?thesis using e False by (simp add: pow2_def)
qed

lemma roundHalfEven_of_int: "roundHalfEven (of_int n) = n"
  by (simp add: roundHalfEven_def)

lemma roundHalfEven_ge_floor: "\<lfloor>q\<rfloor> \<le> roundHalfEven q"
  by (simp add: roundHalfEven_def Let_def)

text \<open>A positive rational of the form \<open>m * 2 ^ (e - 52)\<close>, with \<open>e\<close> its binary exponent,
  is a double, and rounding leaves it as it is.\<close>

lemma roundToDouble_exact:
  assumes x: "0 < x" and e: "ilog2 x = e" and lo: "- 1022 \<le> e"
    and m: "x = of_int m * pow2 (e - 52)" and hi: "x < pow2 1024"
  shows "roundToDouble x = Num x"
proof -
  have u: "pow2 (e - 52) \<noteq> 0" using pow2_pos[of "e - 52"] by simp
  have a: "\<bar>x\<bar> = x" using x by simp
  have mx: "max (ilog2 x) (- 1022) = e" using e lo by simp
  have q: "x / pow2 (e - 52) = of_int m" using m u by simp
  have y: "of_int (roundHalfEven (x / pow2 (e - 52))) * pow2 (e - 52) = x"
    unfolding q roundHalfEven_of_int using m by simp
  have "x \<noteq> 0" using x by simp
  then show ?thesis
    unfolding roundToDouble_def Let_def a mx y using x hi by simp
qed

lemma ilog2_1: "ilog2 1 = 0"
  by (simp add: ilog2_def bitLength_1)

lemma ilog2_2: "ilog2 2 = 1"
  by (simp add: ilog2_def bitLength_2)

lemma ilog2_3_2: "ilog2 (3 / 2) = 0"
proof -
  have "\<lfloor>3 / 2 :: rat\<rfloor> = 1" by linarith
  then show ?thesis by (simp add: ilog2_def bitLength_1)
qed

lemma roundToDouble_0: "roundToDouble 0 = Num 0"
  by (simp add: roundToDouble_def)

lemma roundToDouble_1: "roundToDouble 1 = Num 1"
  by (rule roundToDouble_exact[where e = 0 and m = 4503599627370496])
     (simp_all add: ilog2_1 pow2_def)

lemma roundToDouble_2: "roundToDouble 2 = Num 2"
  by (rule roundToDouble_exact[where e = 1 and m = 4503599627370496])
     (simp_all add: ilog2_2 pow2_def)

lemma roundToDouble_3_2: "roundToDouble (3 / 2) = Num (3 / 2)"
  by (rule roundToDouble_exact[where e = 0 and m = 6755399441055744])
     (simp_all add: ilog2_3_2 pow2_def)

text \<open>Rounding a value that is at least 1 gives a number that is at least 1, or
  infinity.\<close>

lemma roundToDouble_ge1:
  assumes x: "1 \<le> x"
  shows "roundToDouble x = PosInf \<or> (\<exists>y. roundToDouble x = Num y \<and> 1 \<le> y)"
proof -
  define e where "e = bitLength \<lfloor>x\<rfloor> - 1"
  define ulp where "ulp = pow2 (e - 52)"
  define y where "y = of_int (roundHalfEven (x / ulp)) * ulp"
  have n: "0 < \<lfloor>x\<rfloor>" using x by simp
  have e0: "0 \<le> e" using bitLength_ge1[OF n] by (simp add: e_def)
  have il: "ilog2 x = e" using x by (simp add: ilog2_def e_def)
  have mx: "max (ilog2 x) (- 1022) = e" using il e0 by simp
  have up: "0 < ulp" by (simp add: ulp_def pow2_pos)
  have "(2 :: int) ^ nat e \<le> \<lfloor>x\<rfloor>" unfolding e_def by (rule bitLength_lower[OF n])
  then have "of_int (2 ^ nat e) \<le> (of_int \<lfloor>x\<rfloor> :: rat)" by (simp only: of_int_le_iff)
  also have "\<dots> \<le> x" by simp
  finally have px: "pow2 e \<le> x" using e0 by (simp add: pow2_def)
  have sh: "pow2 e = 4503599627370496 * ulp" unfolding ulp_def by (rule pow2_shift[OF e0])
  have "4503599627370496 * ulp \<le> x" using px sh by simp
  then have "4503599627370496 \<le> x / ulp" using up by (simp add: pos_le_divide_eq)
  then have f: "4503599627370496 \<le> \<lfloor>x / ulp\<rfloor>" by (simp add: le_floor_iff)
  have "4503599627370496 \<le> roundHalfEven (x / ulp)"
    by (rule order_trans[OF f roundHalfEven_ge_floor])
  then have "(of_int 4503599627370496 :: rat) \<le> of_int (roundHalfEven (x / ulp))"
    by (simp only: of_int_le_iff)
  then have "4503599627370496 * ulp \<le> y"
    unfolding y_def using up by (simp add: mult_right_mono)
  then have "pow2 e \<le> y" using sh by simp
  moreover have "1 \<le> pow2 e" using e0 by (simp add: pow2_def)
  ultimately have y1: "1 \<le> y" by simp
  have a: "\<bar>x\<bar> = x" using x by simp
  have r: "roundToDouble x = (if pow2 1024 \<le> y then PosInf else Num y)"
    using x unfolding roundToDouble_def Let_def a mx y_def ulp_def by simp
  show ?thesis unfolding r using y1 by simp
qed

section \<open>Numbers: comparison and remainder\<close>

lemma jsAdd_NaN_right: "jsAdd a NaN = NaN"
  by (cases a) simp_all

text \<open>The remainder of a number that is not negative by a positive number is below the
  divisor, and so is every number below an infinite divisor.\<close>

lemma jsRem_less:
  assumes h: "0 \<le> h" and t: "0 < t"
  shows "jsLess (jsRem (Num h) (Num t)) (Num t)"
proof -
  have q: "0 \<le> h / t" using h t by simp
  have "h / t < of_int \<lfloor>h / t\<rfloor> + 1" by linarith
  then have "h < (of_int \<lfloor>h / t\<rfloor> + 1) * t" using t by (simp add: pos_divide_less_eq)
  then have "h - t * of_int \<lfloor>h / t\<rfloor> < t" by (simp add: algebra_simps)
  then show ?thesis using t q by (simp add: truncToZero_def)
qed


section \<open>Bridge instances: failure counting and health\<close>

lemma probe_failed_counter:
  "probeFailed outcome \<Longrightarrow>
   consecutiveFailures (probe start now1 now2 outcome b) = consecutiveFailures b + 1"
  by (cases outcome) (simp_all add: probe_def probeFailed_def Let_def)

lemma probe_failed_healthy:
  "probeFailed outcome \<Longrightarrow>
   healthy (probe start now1 now2 outcome b) = (healthy b \<and> consecutiveFailures b + 1 < 3)"
  by (cases outcome) (auto simp add: probe_def probeFailed_def Let_def)

lemma probe_ok_resets:
  "consecutiveFailures (probe start now1 now2 ResponseOk b) = 0 \<and>
   healthy (probe start now1 now2 ResponseOk b)"
  by (simp add: probe_def)

lemma runOps_Cons: "runOps b (op # ops) = runOps (applyOp b op) ops"
  by (simp add: runOps_def)

lemma run_of_failed_probes:
  "\<forall>op \<in> set ops. isFailedProbe op \<Longrightarrow>
   consecutiveFailures (runOps b ops) = consecutiveFailures b + length ops \<and>
   healthy (runOps b ops) =
     (healthy b \<and> (ops = [] \<or> consecutiveFailures b + length ops < 3))"
proof (induction ops arbitrary: b)
  case Nil
  then show ?case by (simp add: runOps_def)
next
  case (Cons op ops)
  then obtain start now1 now2 outcome
    where op: "op = Probe start now1 now2 outcome" and failed: "probeFailed outcome"
    by (cases op) auto
  have ih:
    "consecutiveFailures (runOps (applyOp b op) ops) =
       consecutiveFailures (applyOp b op) + length ops \<and>
     healthy (runOps (applyOp b op) ops) =
       (healthy (applyOp b op) \<and>
        (ops = [] \<or> consecutiveFailures (applyOp b op) + length ops < 3))"
    using Cons by simp
  show ?case
    unfolding runOps_Cons using ih
    by (auto simp add: op probe_failed_counter[OF failed] probe_failed_healthy[OF failed])
qed

text \<open>
  Claim C3. A failed probe (a response that is not 2xx, or a transport error) adds one to
  the consecutive-failure counter, and the instance is healthy afterwards exactly if it
  was healthy before and the counter is still below 3; a successful probe sets the
  counter to zero and the instance healthy. So after a run of failed probes, from an
  instance that is healthy with counter zero, the counter is the length of the run and the
  instance is unhealthy exactly if the run has three or more probes.
\<close>

theorem probe_counts_failures:
  "(probeFailed outcome \<longrightarrow>
      consecutiveFailures (probe start now1 now2 outcome b) = consecutiveFailures b + 1 \<and>
      healthy (probe start now1 now2 outcome b) = (healthy b \<and> consecutiveFailures b + 1 < 3)) \<and>
   (\<not> probeFailed outcome \<longrightarrow>
      consecutiveFailures (probe start now1 now2 outcome b) = 0 \<and>
      healthy (probe start now1 now2 outcome b)) \<and>
   (healthy b \<and> consecutiveFailures b = 0 \<and> (\<forall>op \<in> set ops. isFailedProbe op) \<longrightarrow>
      consecutiveFailures (runOps b ops) = length ops \<and>
      healthy (runOps b ops) = (length ops < 3))"
proof (intro conjI impI)
  assume "probeFailed outcome"
  then show "consecutiveFailures (probe start now1 now2 outcome b) = consecutiveFailures b + 1"
    by (rule probe_failed_counter)
next
  assume "probeFailed outcome"
  then show "healthy (probe start now1 now2 outcome b) =
               (healthy b \<and> consecutiveFailures b + 1 < 3)"
    by (rule probe_failed_healthy)
next
  assume "\<not> probeFailed outcome"
  then have "outcome = ResponseOk" by (simp add: probeFailed_def)
  then show "consecutiveFailures (probe start now1 now2 outcome b) = 0"
    by (simp add: probe_ok_resets)
next
  assume "\<not> probeFailed outcome"
  then have "outcome = ResponseOk" by (simp add: probeFailed_def)
  then show "healthy (probe start now1 now2 outcome b)" by (simp add: probe_ok_resets)
next
  assume "healthy b \<and> consecutiveFailures b = 0 \<and> (\<forall>op \<in> set ops. isFailedProbe op)"
  then show "consecutiveFailures (runOps b ops) = length ops"
    using run_of_failed_probes[of ops b] by simp
next
  assume "healthy b \<and> consecutiveFailures b = 0 \<and> (\<forall>op \<in> set ops. isFailedProbe op)"
  then show "healthy (runOps b ops) = (length ops < 3)"
    using run_of_failed_probes[of ops b] by auto
qed

text \<open>On a new instance: one rejected fetch counts 1 and leaves it healthy, three failed
  probes count 3 and make it unhealthy, and the next 2xx response resets both.\<close>

theorem probe_counts_failures_witness:
  "probeFailed FetchRejected \<and> \<not> probeFailed ResponseOk \<and>
   list_all isFailedProbe threeFailures \<and>
   consecutiveFailures (probe 0 20 21 FetchRejected (newInstance sampleDefA)) = 1 \<and>
   healthy (probe 0 20 21 FetchRejected (newInstance sampleDefA)) \<and>
   consecutiveFailures
     (probe 0 20 21 ResponseOk (runOps (newInstance sampleDefA) threeFailures)) = 0 \<and>
   healthy (probe 0 20 21 ResponseOk (runOps (newInstance sampleDefA) threeFailures)) \<and>
   consecutiveFailures (runOps (newInstance sampleDefA) threeFailures) = 3 \<and>
   \<not> healthy (runOps (newInstance sampleDefA) threeFailures)"
proof -
  have f: "probeFailed FetchRejected" and o: "\<not> probeFailed ResponseOk"
    by (simp_all add: probeFailed_def)
  have a: "\<forall>op \<in> set threeFailures. isFailedProbe op"
    by (simp add: threeFailures_def probeFailed_def)
  have n: "healthy (newInstance sampleDefA)" "consecutiveFailures (newInstance sampleDefA) = 0"
    by (simp_all add: newInstance_def)
  have l: "length threeFailures = 3" by (simp add: threeFailures_def)
  note t1 = probe_counts_failures
              [of FetchRejected 0 20 21 "newInstance sampleDefA" threeFailures]
  note t2 = probe_counts_failures
              [of ResponseOk 0 20 21 "runOps (newInstance sampleDefA) threeFailures" "[]"]
  have 1: "consecutiveFailures (probe 0 20 21 FetchRejected (newInstance sampleDefA)) = 1"
    using t1 f n by simp
  have 2: "healthy (probe 0 20 21 FetchRejected (newInstance sampleDefA))"
    using t1 f n by simp
  have 3: "consecutiveFailures
             (probe 0 20 21 ResponseOk (runOps (newInstance sampleDefA) threeFailures)) = 0"
    using t2 o by blast
  have 4: "healthy (probe 0 20 21 ResponseOk (runOps (newInstance sampleDefA) threeFailures))"
    using t2 o by blast
  have 5: "consecutiveFailures (runOps (newInstance sampleDefA) threeFailures) = 3"
    using t1 a n l by simp
  have 6: "\<not> healthy (runOps (newInstance sampleDefA) threeFailures)"
    using t1 a n l by simp
  have a2: "list_all isFailedProbe threeFailures" using a by (simp add: list_all_iff)
  show ?thesis using f o a2 1 2 3 4 5 6 by blast
qed

lemma healthInvariant_new: "healthInvariant (newInstance d)"
  by (simp add: healthInvariant_def newInstance_def)

lemma healthInvariant_applyOp: "healthInvariant b \<Longrightarrow> healthInvariant (applyOp b op)"
  by (cases op)
     (auto simp add: healthInvariant_def probe_def recordFailure_def recordSuccess_def Let_def
           split: ProbeOutcome.splits)

lemma healthInvariant_runOps: "healthInvariant b \<Longrightarrow> healthInvariant (runOps b ops)"
  unfolding runOps_def by (induction ops arbitrary: b) (auto simp: healthInvariant_applyOp)

text \<open>
  Claim C9. An instance whose healthy flag is false has a consecutive-failure counter of
  at least 3: this holds of a new instance, every operation (probe, recordFailure,
  recordSuccess) keeps it, and so it holds after any run of operations on a new instance.
  The derived state is unhealthy exactly when the flag is false, degraded exactly when
  the flag is true and the counter is positive, and healthy otherwise.
\<close>

theorem health_invariant:
  "healthInvariant (newInstance d) \<and>
   (healthInvariant b \<longrightarrow> healthInvariant (applyOp b op)) \<and>
   healthInvariant (runOps (newInstance d) ops) \<and>
   (state b = unhealthy_state) = (\<not> healthy b) \<and>
   (state b = degraded_state) = (healthy b \<and> 0 < consecutiveFailures b) \<and>
   (state b = healthy_state) = (healthy b \<and> consecutiveFailures b = 0)"
proof (intro conjI impI)
  show "healthInvariant (newInstance d)" by (rule healthInvariant_new)
  show "healthInvariant (runOps (newInstance d) ops)"
    by (rule healthInvariant_runOps[OF healthInvariant_new])
  show "(state b = unhealthy_state) = (\<not> healthy b)" by (simp add: state_def)
  show "(state b = degraded_state) = (healthy b \<and> 0 < consecutiveFailures b)"
    by (simp add: state_def)
  show "(state b = healthy_state) = (healthy b \<and> consecutiveFailures b = 0)"
    by (auto simp add: state_def)
next
  assume "healthInvariant b"
  then show "healthInvariant (applyOp b op)" by (rule healthInvariant_applyOp)
qed

lemma run_threeFailures:
  "runOps (newInstance sampleDefA) threeFailures =
     (newInstance sampleDefA)\<lparr> consecutiveFailures := 3, healthy := False,
        lastCheckedAt := Some 30010, lastLatencyMs := Some 10 \<rparr>"
  by (simp add: runOps_def threeFailures_def probe_def newInstance_def Let_def)

text \<open>After three failed probes the instance is unhealthy, and its counter is 3.\<close>

theorem health_invariant_witness:
  "\<not> healthy (runOps (newInstance sampleDefA) threeFailures) \<and>
   3 \<le> consecutiveFailures (runOps (newInstance sampleDefA) threeFailures) \<and>
   healthInvariant (applyOp (runOps (newInstance sampleDefA) threeFailures) RecordFailure) \<and>
   state (runOps (newInstance sampleDefA) threeFailures) = unhealthy_state"
proof -
  note t = health_invariant
             [of sampleDefA "runOps (newInstance sampleDefA) threeFailures" RecordFailure
                 threeFailures]
  have u: "\<not> healthy (runOps (newInstance sampleDefA) threeFailures)"
    by (simp add: run_threeFailures)
  have i: "healthInvariant (runOps (newInstance sampleDefA) threeFailures)" using t by blast
  have 1: "3 \<le> consecutiveFailures (runOps (newInstance sampleDefA) threeFailures)"
    using i u unfolding healthInvariant_def by blast
  have 2: "healthInvariant (applyOp (runOps (newInstance sampleDefA) threeFailures) RecordFailure)"
    using t i by blast
  have 3: "state (runOps (newInstance sampleDefA) threeFailures) = unhealthy_state"
    using t u by blast
  show ?thesis using u 1 2 3 by blast
qed

section \<open>The pool is never empty\<close>

lemma newPool_Inr:
  "newPool definitions interval = Inr pool \<Longrightarrow>
   bridges pool \<noteq> [] \<and> length (bridges pool) = length definitions"
  by (auto simp add: newPool_def split: if_splits)

lemma length_onFirst: "length (onFirst P f xs) = length xs"
  by (induction xs) auto

text \<open>
  Claim C8. The constructor of the pool throws on an empty list of definitions, and a
  pool it returns has as many bridges as there were definitions, at least one. Reporting
  a failure or a success to the pool keeps the number of bridges, so a pool stays as
  non-empty as it was constructed. (\<open>fromEnv\<close> builds its pool with this constructor.)
\<close>

theorem pool_never_empty:
  "(\<exists>err. newPool [] interval = Inl err) \<and>
   (newPool definitions interval = Inr pool \<longrightarrow>
      bridges pool \<noteq> [] \<and> length (bridges pool) = length definitions) \<and>
   length (bridges (poolRecordFailure bridgeId pool)) = length (bridges pool) \<and>
   length (bridges (poolRecordSuccess bridgeId pool)) = length (bridges pool)"
proof (intro conjI impI)
  show "\<exists>err. newPool [] interval = Inl err" by (simp add: newPool_def)
  show "length (bridges (poolRecordFailure bridgeId pool)) = length (bridges pool)"
    by (simp add: poolRecordFailure_def length_onFirst)
  show "length (bridges (poolRecordSuccess bridgeId pool)) = length (bridges pool)"
    by (simp add: poolRecordSuccess_def length_onFirst)
next
  assume "newPool definitions interval = Inr pool"
  then show "bridges pool \<noteq> []" by (simp add: newPool_Inr)
next
  assume "newPool definitions interval = Inr pool"
  then show "length (bridges pool) = length definitions" by (simp add: newPool_Inr)
qed

text \<open>Two definitions give the pool of their two instances.\<close>

theorem pool_never_empty_witness:
  "newPool [sampleDefA, sampleDefB] None = Inr samplePool \<and>
   bridges samplePool \<noteq> [] \<and> length (bridges samplePool) = length [sampleDefA, sampleDefB]"
proof -
  have h: "newPool [sampleDefA, sampleDefB] None = Inr samplePool"
    by (simp add: newPool_def samplePool_def)
  from pool_never_empty[of None "[sampleDefA, sampleDefB]" samplePool] h
  have "bridges samplePool \<noteq> [] \<and>
        length (bridges samplePool) = length [sampleDefA, sampleDefB]"
    by blast
  with h show ?thesis by blast
qed

section \<open>Selection by affinity key\<close>

text \<open>The weight of an instance is what its constructor made it: NaN or at least 1. No
  operation on an instance changes it, so it holds of every bridge of a pool.\<close>

lemma jsMax_constructed: "constructedWeight (jsMax (Num 1) w)"
  by (cases w) (simp_all add: constructedWeight_def jsMax_def)

lemma newInstance_constructed: "constructedWeight (weight (newInstance d))"
  by (simp add: newInstance_def jsMax_constructed)

lemma applyOp_weight: "weight (applyOp b op) = weight b"
  by (cases op) (simp_all add: probe_def recordFailure_def recordSuccess_def Let_def
                          split: ProbeOutcome.splits)

lemma runOps_weight: "weight (runOps b ops) = weight b"
  unfolding runOps_def by (induction ops arbitrary: b) (simp_all add: applyOp_weight)

lemma newPool_constructed:
  "newPool definitions interval = Inr pool \<Longrightarrow>
   list_all (\<lambda>b. constructedWeight (weight b)) (bridges pool)"
  by (auto simp add: newPool_def list_all_iff newInstance_constructed split: if_splits)

lemma candidates_constructed:
  "list_all (\<lambda>b. constructedWeight (weight b)) (bridges pool) \<Longrightarrow>
   list_all (\<lambda>b. constructedWeight (weight b)) (candidates pool options)"
  by (auto simp add: candidates_def list_all_iff Let_def)

text \<open>The sum of the weights: from a start that is not negative, weights as the
  constructor makes them add up to NaN, to infinity or to a number that is at least 1.\<close>

lemma jsAdd_constructed:
  assumes acc: "acc = NaN \<or> acc = PosInf \<or> (\<exists>a. acc = Num a \<and> 0 \<le> a)"
    and w: "constructedWeight w"
  shows "jsAdd acc w = NaN \<or> jsAdd acc w = PosInf \<or> (\<exists>a. jsAdd acc w = Num a \<and> 1 \<le> a)"
proof (cases w)
  case NaN
  then show ?thesis by (simp add: jsAdd_NaN_right)
next
  case NegInf
  then show ?thesis using w by (simp add: constructedWeight_def)
next
  case PosInf
  then show ?thesis using acc by auto
next
  case (Num b)
  then have b: "1 \<le> b" using w by (simp add: constructedWeight_def)
  from acc show ?thesis
  proof (elim disjE exE conjE)
    assume "acc = NaN"
    then show ?thesis by simp
  next
    assume "acc = PosInf"
    then show ?thesis using Num by simp
  next
    fix a assume a: "acc = Num a" "0 \<le> a"
    have "1 \<le> a + b" using a(2) b by simp
    from roundToDouble_ge1[OF this] show ?thesis using a(1) Num by simp
  qed
qed

lemma foldl_constructed:
  assumes "list_all (\<lambda>b. constructedWeight (weight b)) cs" and "cs \<noteq> []"
    and "acc = NaN \<or> acc = PosInf \<or> (\<exists>a. acc = Num a \<and> 0 \<le> a)"
  shows "foldl (\<lambda>sum b. jsAdd sum (weight b)) acc cs = NaN \<or>
         foldl (\<lambda>sum b. jsAdd sum (weight b)) acc cs = PosInf \<or>
         (\<exists>a. foldl (\<lambda>sum b. jsAdd sum (weight b)) acc cs = Num a \<and> 1 \<le> a)"
  using assms
proof (induction cs arbitrary: acc)
  case Nil
  then show ?case by simp
next
  case (Cons c cs)
  have w: "constructedWeight (weight c)" using Cons.prems(1) by simp
  have step: "jsAdd acc (weight c) = NaN \<or> jsAdd acc (weight c) = PosInf \<or>
              (\<exists>a. jsAdd acc (weight c) = Num a \<and> 1 \<le> a)"
    by (rule jsAdd_constructed[OF Cons.prems(3) w])
  show ?case
  proof (cases "cs = []")
    case True
    then show ?thesis using step by simp
  next
    case False
    have rest: "list_all (\<lambda>b. constructedWeight (weight b)) cs" using Cons.prems(1) by simp
    have start: "jsAdd acc (weight c) = NaN \<or> jsAdd acc (weight c) = PosInf \<or>
                 (\<exists>a. jsAdd acc (weight c) = Num a \<and> 0 \<le> a)"
      using step by force
    from Cons.IH[OF rest False start] show ?thesis by simp
  qed
qed

lemma totalWeight_cases:
  assumes "list_all (\<lambda>b. constructedWeight (weight b)) cs" and "cs \<noteq> []"
  shows "totalWeight cs = NaN \<or> totalWeight cs = PosInf \<or>
         (\<exists>a. totalWeight cs = Num a \<and> 1 \<le> a)"
  unfolding totalWeight_def by (rule foldl_constructed[OF assms]) simp

lemma foldl_weights_cong:
  "map weight cs1 = map weight cs2 \<Longrightarrow>
   foldl (\<lambda>sum b. jsAdd sum (weight b)) acc cs1 = foldl (\<lambda>sum b. jsAdd sum (weight b)) acc cs2"
proof (induction cs1 arbitrary: cs2 acc)
  case Nil
  then show ?case by simp
next
  case (Cons c cs1)
  then obtain d ds where cs2: "cs2 = d # ds" by (cases cs2) auto
  then show ?case using Cons by simp
qed

lemma totalWeight_cong: "map weight cs1 = map weight cs2 \<Longrightarrow> totalWeight cs1 = totalWeight cs2"
  unfolding totalWeight_def by (rule foldl_weights_cong)

text \<open>The loops. With a mark that is NaN neither loop selects; the affinity loop selects
  when the mark is below the sum of the weights, which the cursor reaches at the last
  candidate; and on two lists with the same weights it selects at the same position.\<close>

lemma firstAbove_NaN: "firstAbove NaN cursor cs = None"
  by (induction cs arbitrary: cursor) simp_all

lemma firstReaching_NaN: "firstReaching NaN cursor cs = None"
  by (induction cs arbitrary: cursor) simp_all

lemma firstAbove_None:
  "firstAbove m cursor cs = None \<Longrightarrow> cs \<noteq> [] \<Longrightarrow>
   \<not> jsLess m (foldl (\<lambda>sum b. jsAdd sum (weight b)) cursor cs)"
proof (induction cs arbitrary: cursor)
  case Nil
  then show ?case by simp
next
  case (Cons c cs)
  have no: "\<not> jsLess m (jsAdd cursor (weight c))"
    using Cons.prems(1) by (auto split: if_splits)
  show ?case
  proof (cases "cs = []")
    case True
    then show ?thesis using no by simp
  next
    case False
    have "firstAbove m (jsAdd cursor (weight c)) cs = None"
      using Cons.prems(1) no by simp
    from Cons.IH[OF this False] show ?thesis by simp
  qed
qed

lemma firstAbove_position:
  "map weight cs1 = map weight cs2 \<Longrightarrow>
   (firstAbove m cursor cs1 = None \<and> firstAbove m cursor cs2 = None) \<or>
   (\<exists>i < length cs1. firstAbove m cursor cs1 = Some (cs1 ! i) \<and>
                      firstAbove m cursor cs2 = Some (cs2 ! i))"
proof (induction cs1 arbitrary: cs2 cursor)
  case Nil
  then show ?case by simp
next
  case (Cons c cs1)
  then obtain d ds where cs2: "cs2 = d # ds" and w: "weight c = weight d"
    and rest: "map weight cs1 = map weight ds"
    by (cases cs2) auto
  show ?case
  proof (cases "jsLess m (jsAdd cursor (weight c))")
    case True
    then have "firstAbove m cursor (c # cs1) = Some ((c # cs1) ! 0) \<and>
               firstAbove m cursor cs2 = Some (cs2 ! 0)"
      using cs2 w by simp
    then show ?thesis by blast
  next
    case False
    from Cons.IH[OF rest, of "jsAdd cursor (weight c)"]
    show ?thesis
    proof (elim disjE exE conjE)
      assume "firstAbove m (jsAdd cursor (weight c)) cs1 = None"
        and "firstAbove m (jsAdd cursor (weight c)) ds = None"
      then show ?thesis using False cs2 w by simp
    next
      fix i
      assume i: "i < length cs1"
        and 1: "firstAbove m (jsAdd cursor (weight c)) cs1 = Some (cs1 ! i)"
        and 2: "firstAbove m (jsAdd cursor (weight c)) ds = Some (ds ! i)"
      have "Suc i < length (c # cs1) \<and>
            firstAbove m cursor (c # cs1) = Some ((c # cs1) ! Suc i) \<and>
            firstAbove m cursor cs2 = Some (cs2 ! Suc i)"
        using False cs2 w i 1 2 by simp
      then show ?thesis by blast
    qed
  qed
qed

text \<open>\<open>getBridge\<close> on a single candidate, and on several candidates with a key.\<close>

lemma getBridge_single:
  "candidates pool options = [c] \<Longrightarrow> getBridge pool options rnd = Inr (snapshot c)"
  by (simp add: getBridge_def Let_def split: option.splits)

lemma getBridge_keyed:
  assumes cs: "candidates pool options = cs" and k: "keyOf options = Some key" "key \<noteq> []"
    and len: "1 < length cs"
  shows "getBridge pool options rnd =
     Inr (snapshot
       (case firstAbove (jsRem (Num (of_int (hash key))) (totalWeight cs)) (Num 0) cs of
          Some b \<Rightarrow> b
        | None \<Rightarrow>
            (case firstReaching (jsTimes (Num rnd) (totalWeight cs)) (Num 0) cs of
               Some b \<Rightarrow> b | None \<Rightarrow> hd cs)))"
proof -
  have "cs \<noteq> []" using len by auto
  then show ?thesis using k len by (simp add: getBridge_def cs Let_def split: option.splits)
qed

lemma hash_nonneg: "0 \<le> hash k"
  by (simp add: hash_def)

text \<open>With a key, on several candidates whose weights the constructor made, the loops
  select at a position that the weights and the key determine.\<close>

lemma keyed_position:
  assumes w: "map weight cs1 = map weight cs2"
    and ok: "list_all (\<lambda>b. constructedWeight (weight b)) cs1"
    and len: "1 < length cs1"
  shows "\<exists>i < length cs1.
     (case firstAbove (jsRem (Num (of_int (hash key))) (totalWeight cs1)) (Num 0) cs1 of
        Some b \<Rightarrow> b
      | None \<Rightarrow> (case firstReaching (jsTimes (Num rnd1) (totalWeight cs1)) (Num 0) cs1 of
                   Some b \<Rightarrow> b | None \<Rightarrow> hd cs1)) = cs1 ! i \<and>
     (case firstAbove (jsRem (Num (of_int (hash key))) (totalWeight cs2)) (Num 0) cs2 of
        Some b \<Rightarrow> b
      | None \<Rightarrow> (case firstReaching (jsTimes (Num rnd2) (totalWeight cs2)) (Num 0) cs2 of
                   Some b \<Rightarrow> b | None \<Rightarrow> hd cs2)) = cs2 ! i"
proof -
  have ne1: "cs1 \<noteq> []" using len by auto
  have "length cs1 = length cs2" using w by (rule map_eq_imp_length_eq)
  then have ne2: "cs2 \<noteq> []" using ne1 by auto
  have tw: "totalWeight cs2 = totalWeight cs1" using totalWeight_cong[OF w] by simp
  have h: "(0 :: rat) \<le> of_int (hash key)" using hash_nonneg[of key] by simp
  from totalWeight_cases[OF ok ne1] show ?thesis
  proof (elim disjE exE conjE)
    assume t: "totalWeight cs1 = NaN"
    have "hd cs1 = cs1 ! 0" "hd cs2 = cs2 ! 0" using ne1 ne2 by (simp_all add: hd_conv_nth)
    then show ?thesis
      using ne1 by (auto simp add: tw t firstAbove_NaN firstReaching_NaN)
  next
    assume t: "totalWeight cs1 = PosInf"
    have less: "jsLess (jsRem (Num (of_int (hash key))) (totalWeight cs1)) (totalWeight cs1)"
      unfolding t by simp
    have "firstAbove (jsRem (Num (of_int (hash key))) (totalWeight cs1)) (Num 0) cs1 \<noteq> None"
      using firstAbove_None[OF _ ne1, of "jsRem (Num (of_int (hash key))) (totalWeight cs1)" "Num 0"]
            less
      by (auto simp add: totalWeight_def)
    with firstAbove_position[OF w, of "jsRem (Num (of_int (hash key))) (totalWeight cs1)" "Num 0"]
    show ?thesis by (auto simp add: tw)
  next
    fix a assume t: "totalWeight cs1 = Num a" and a: "1 \<le> a"
    have "0 < a" using a by simp
    from jsRem_less[OF h this]
    have less: "jsLess (jsRem (Num (of_int (hash key))) (totalWeight cs1)) (totalWeight cs1)"
      unfolding t .
    have "firstAbove (jsRem (Num (of_int (hash key))) (totalWeight cs1)) (Num 0) cs1 \<noteq> None"
      using firstAbove_None[OF _ ne1, of "jsRem (Num (of_int (hash key))) (totalWeight cs1)" "Num 0"]
            less
      by (auto simp add: totalWeight_def)
    with firstAbove_position[OF w, of "jsRem (Num (of_int (hash key))) (totalWeight cs1)" "Num 0"]
    show ?thesis by (auto simp add: tw)
  qed
qed

lemma getBridge_position:
  assumes c1: "candidates pool1 options1 = cs1" and c2: "candidates pool2 options2 = cs2"
    and w: "map weight cs1 = map weight cs2"
    and ok: "list_all (\<lambda>b. constructedWeight (weight b)) cs1"
    and k1: "keyOf options1 = Some key" and k2: "keyOf options2 = Some key"
    and k: "key \<noteq> []" and ne: "cs1 \<noteq> []"
  shows "\<exists>i < length cs1. getBridge pool1 options1 rnd1 = Inr (snapshot (cs1 ! i)) \<and>
                           getBridge pool2 options2 rnd2 = Inr (snapshot (cs2 ! i))"
proof (cases "length cs1 = 1")
  case True
  have l: "length cs1 = length cs2" using w by (rule map_eq_imp_length_eq)
  obtain x where x: "cs1 = [x]" using True by (cases cs1) auto
  obtain y where y: "cs2 = [y]" using True l by (cases cs2) auto
  have "getBridge pool1 options1 rnd1 = Inr (snapshot (cs1 ! 0))"
    using getBridge_single[of pool1 options1 x rnd1] c1 x by simp
  moreover have "getBridge pool2 options2 rnd2 = Inr (snapshot (cs2 ! 0))"
    using getBridge_single[of pool2 options2 y rnd2] c2 y by simp
  ultimately show ?thesis using True by auto
next
  case False
  then have len1: "1 < length cs1" using ne by (cases cs1) auto
  have "length cs1 = length cs2" using w by (rule map_eq_imp_length_eq)
  then have len2: "1 < length cs2" using len1 by simp
  from keyed_position[OF w ok len1, where key = key and ?rnd1.0 = rnd1 and ?rnd2.0 = rnd2] obtain i where i: "i < length cs1"
    and 1: "(case firstAbove (jsRem (Num (of_int (hash key))) (totalWeight cs1)) (Num 0) cs1 of
        Some b \<Rightarrow> b
      | None \<Rightarrow> (case firstReaching (jsTimes (Num rnd1) (totalWeight cs1)) (Num 0) cs1 of
                   Some b \<Rightarrow> b | None \<Rightarrow> hd cs1)) = cs1 ! i"
    and 2: "(case firstAbove (jsRem (Num (of_int (hash key))) (totalWeight cs2)) (Num 0) cs2 of
        Some b \<Rightarrow> b
      | None \<Rightarrow> (case firstReaching (jsTimes (Num rnd2) (totalWeight cs2)) (Num 0) cs2 of
                   Some b \<Rightarrow> b | None \<Rightarrow> hd cs2)) = cs2 ! i"
    by blast
  have "getBridge pool1 options1 rnd1 = Inr (snapshot (cs1 ! i))"
    unfolding getBridge_keyed[OF c1 k1 k len1] 1 ..
  moreover have "getBridge pool2 options2 rnd2 = Inr (snapshot (cs2 ! i))"
    unfolding getBridge_keyed[OF c2 k2 k len2] 2 ..
  ultimately show ?thesis using i by blast
qed

lemma snapshotIdentity_snapshot: "snapshotIdentity (snapshot b) = bridgeIdentity b"
  by (simp add: snapshotIdentity_def snapshot_def bridgeIdentity_def)

lemma identity_weights:
  "map bridgeIdentity cs1 = map bridgeIdentity cs2 \<Longrightarrow> map weight cs1 = map weight cs2"
proof (induction cs1 arbitrary: cs2)
  case Nil
  then show ?case by simp
next
  case (Cons c cs1)
  then obtain d ds where "cs2 = d # ds" by (cases cs2) auto
  then show ?case using Cons by (simp add: bridgeIdentity_def)
qed

text \<open>An affinity key that is the empty string is as good as none.\<close>

lemma getBridge_empty_key:
  "getBridge pool (Some \<lparr> affinityKey = Some [], allowUnhealthy = a \<rparr>) rnd =
   getBridge pool (Some \<lparr> affinityKey = None, allowUnhealthy = a \<rparr>) rnd"
  by (simp add: getBridge_def candidates_def keyOf_def Let_def)

text \<open>Two pools with the same bridges, weights and health flags have, under the same
  \<open>allowUnhealthy\<close>, candidates with the same bridges, weights and health flags.\<close>

lemma filter_healthy_identity:
  "map bridgeIdentity bs1 = map bridgeIdentity bs2 \<Longrightarrow>
   map bridgeIdentity (filter healthy bs1) = map bridgeIdentity (filter healthy bs2)"
proof (induction bs1 arbitrary: bs2)
  case Nil
  then show ?case by simp
next
  case (Cons b bs1)
  then obtain d ds where "bs2 = d # ds" by (cases bs2) auto
  then show ?case using Cons by (auto simp add: bridgeIdentity_def)
qed

lemma candidates_identity:
  assumes "map bridgeIdentity (bridges pool1) = map bridgeIdentity (bridges pool2)"
  shows "map bridgeIdentity (candidates pool1 options) =
         map bridgeIdentity (candidates pool2 options)"
proof -
  have f: "map bridgeIdentity (filter healthy (bridges pool1)) =
           map bridgeIdentity (filter healthy (bridges pool2))"
    by (rule filter_healthy_identity[OF assms])
  then have "(filter healthy (bridges pool1) = []) = (filter healthy (bridges pool2) = [])"
    using map_is_Nil_conv by metis
  then show ?thesis using assms f by (simp add: candidates_def Let_def)
qed

text \<open>
  Claim C4, as amended. Two calls of \<open>getBridge\<close> with the same affinity key, not the
  empty string, whose candidates are the same bridges with the same weights and the same
  health flags, in the same order, return the same bridge, whatever \<open>Math.random()\<close>
  gives in each and whatever else differs between the two sets of instances (the times
  and latencies of the last probes, the failure counters): both throw the same error
  when there is no candidate, and otherwise both return the snapshot of the candidate at
  one and the same position, so the two snapshots agree in id, weight and health flag;
  when the candidates are equal in every field the two results are equal. The weights
  are as the constructor of an instance makes them, NaN or at least 1, which holds of the
  candidates of every pool the constructor returns. An affinity key that is the empty
  string is treated as absent: the call returns what the call without a key returns,
  which is the weighted random draw.
\<close>

theorem getBridge_affinity_deterministic:
  assumes "map bridgeIdentity (candidates pool1 options1) =
           map bridgeIdentity (candidates pool2 options2)"
    and "keyOf options1 = Some key" and "keyOf options2 = Some key" and "key \<noteq> []"
    and "list_all (\<lambda>b. constructedWeight (weight b)) (candidates pool1 options1)"
  shows "map_sum id snapshotIdentity (getBridge pool1 options1 rnd1) =
           map_sum id snapshotIdentity (getBridge pool2 options2 rnd2) \<and>
         (candidates pool1 options1 = [] \<longrightarrow>
            getBridge pool1 options1 rnd1 = Inl (Error ''No media bridges configured'') \<and>
            getBridge pool2 options2 rnd2 = Inl (Error ''No media bridges configured'')) \<and>
         (candidates pool1 options1 \<noteq> [] \<longrightarrow>
            (\<exists>i < length (candidates pool1 options1).
               getBridge pool1 options1 rnd1 = Inr (snapshot (candidates pool1 options1 ! i)) \<and>
               getBridge pool2 options2 rnd2 = Inr (snapshot (candidates pool2 options2 ! i)))) \<and>
         (candidates pool1 options1 = candidates pool2 options2 \<longrightarrow>
            getBridge pool1 options1 rnd1 = getBridge pool2 options2 rnd2) \<and>
         getBridge pool (Some \<lparr> affinityKey = Some [], allowUnhealthy = a \<rparr>) rnd =
           getBridge pool (Some \<lparr> affinityKey = None, allowUnhealthy = a \<rparr>) rnd"
proof -
  let ?cs1 = "candidates pool1 options1" and ?cs2 = "candidates pool2 options2"
  have w: "map weight ?cs1 = map weight ?cs2" by (rule identity_weights[OF assms(1)])
  have l: "length ?cs1 = length ?cs2" using w by (rule map_eq_imp_length_eq)
  have empty: "getBridge pool1 options1 rnd1 = Inl (Error ''No media bridges configured'') \<and>
               getBridge pool2 options2 rnd2 = Inl (Error ''No media bridges configured'')"
    if "?cs1 = []"
  proof -
    have "?cs2 = []" using that l by simp
    then show ?thesis using that by (simp add: getBridge_def)
  qed
  have pos: "\<exists>i < length ?cs1. getBridge pool1 options1 rnd1 = Inr (snapshot (?cs1 ! i)) \<and>
                               getBridge pool2 options2 rnd2 = Inr (snapshot (?cs2 ! i))"
    if "?cs1 \<noteq> []"
    by (rule getBridge_position[OF refl refl w assms(5) assms(2) assms(3) assms(4) that])
  have ident: "map_sum id snapshotIdentity (getBridge pool1 options1 rnd1) =
               map_sum id snapshotIdentity (getBridge pool2 options2 rnd2)"
  proof (cases "?cs1 = []")
    case True
    then show ?thesis using empty by simp
  next
    case False
    from pos[OF False] obtain i where i: "i < length ?cs1"
      and 1: "getBridge pool1 options1 rnd1 = Inr (snapshot (?cs1 ! i))"
      and 2: "getBridge pool2 options2 rnd2 = Inr (snapshot (?cs2 ! i))"
      by blast
    have "bridgeIdentity (?cs1 ! i) = map bridgeIdentity ?cs1 ! i" using i by simp
    also have "\<dots> = map bridgeIdentity ?cs2 ! i" using assms(1) by simp
    also have "\<dots> = bridgeIdentity (?cs2 ! i)" using i l by simp
    finally show ?thesis by (simp add: 1 2 snapshotIdentity_snapshot)
  qed
  have same: "getBridge pool1 options1 rnd1 = getBridge pool2 options2 rnd2"
    if eq: "?cs1 = ?cs2"
  proof (cases "?cs1 = []")
    case True
    then show ?thesis using empty by simp
  next
    case False
    from pos[OF False] show ?thesis using eq by auto
  qed
  show ?thesis
    using ident empty pos same getBridge_empty_key[of pool a rnd] by blast
qed

lemma candidates_samplePool:
  "candidates samplePool (keyed k) = [newInstance sampleDefA, newInstance sampleDefB]"
  by (simp add: candidates_def samplePool_def keyed_def newInstance_def Let_def)

lemma candidates_probedPool:
  "candidates probedPool (keyed k) =
     [probe 0 20 21 ResponseOk (newInstance sampleDefA),
      probe 0 20 21 ResponseOk (newInstance sampleDefB)]"
  by (simp add: candidates_def probedPool_def samplePool_def keyed_def newInstance_def
        probe_def Let_def)

lemma jsMax_1_1: "jsMax (Num 1) (Num 1) = Num 1"
  by (simp add: jsMax_def)

lemma sample_weights:
  "weight (newInstance sampleDefA) = Num 1" "weight (newInstance sampleDefB) = Num 1"
  by (simp_all add: newInstance_def sampleDefA_def sampleDefB_def jsMax_1_1)

lemma probe_identity: "bridgeIdentity (probe 0 20 21 ResponseOk (newInstance d)) =
                       bridgeIdentity (newInstance d)"
  by (simp add: bridgeIdentity_def probe_def newInstance_def)

lemma probedPool_identity:
  "map bridgeIdentity (bridges samplePool) = map bridgeIdentity (bridges probedPool)"
  by (simp add: probedPool_def samplePool_def probe_identity)

lemma samplePool_constructed:
  "list_all (\<lambda>b. constructedWeight (weight b)) (bridges samplePool)"
  by (simp add: samplePool_def newInstance_constructed)

lemma totalWeight_samplePool:
  "totalWeight [newInstance sampleDefA, newInstance sampleDefB] = Num 2"
  by (simp add: totalWeight_def sample_weights roundToDouble_1 roundToDouble_2)

lemma hash_a: "hash [97] = 97"
  by (simp add: hash_def)

lemma jsRem_97_2: "jsRem (Num 97) (Num 2) = Num 1"
proof -
  have "\<lfloor>97 / 2 :: rat\<rfloor> = 48" by linarith
  then show ?thesis by (simp add: truncToZero_def)
qed

lemma getBridge_keyed_sample:
  "getBridge samplePool (keyed [97]) rnd = Inr (snapshot (newInstance sampleDefB))"
proof -
  have k: "keyOf (keyed [97]) = Some [97]" by (simp add: keyOf_def keyed_def)
  show ?thesis
    by (simp add: getBridge_def candidates_samplePool k totalWeight_samplePool sample_weights
          hash_a jsRem_97_2 roundToDouble_1 roundToDouble_2 Let_def del: jsRem.simps)
qed

text \<open>The pool of two bridges, and the same pool after a 2xx probe of each bridge: the
  candidates differ as records and agree in id, weight and health flag, and with the key
  \<open>a\<close> (code unit 97, hash 97, remainder 1 by the weight sum 2) the draws 0 and 3/4 give
  the same bridge, \<open>b\<close>.\<close>

theorem getBridge_affinity_deterministic_witness:
  "map bridgeIdentity (candidates samplePool (keyed [97])) =
     map bridgeIdentity (candidates probedPool (keyed [97])) \<and>
   candidates samplePool (keyed [97]) \<noteq> candidates probedPool (keyed [97]) \<and>
   list_all (\<lambda>b. constructedWeight (weight b)) (candidates samplePool (keyed [97])) \<and>
   map_sum id snapshotIdentity (getBridge samplePool (keyed [97]) 0) =
     map_sum id snapshotIdentity (getBridge probedPool (keyed [97]) (3 / 4)) \<and>
   getBridge samplePool (keyed [97]) 0 = Inr (snapshot (newInstance sampleDefB))"
proof -
  have i: "map bridgeIdentity (candidates samplePool (keyed [97])) =
           map bridgeIdentity (candidates probedPool (keyed [97]))"
    by (rule candidates_identity[OF probedPool_identity])
  have d: "candidates samplePool (keyed [97]) \<noteq> candidates probedPool (keyed [97])"
    by (simp add: candidates_samplePool candidates_probedPool probe_def newInstance_def)
  have k: "keyOf (keyed [97]) = Some [97]" by (simp add: keyOf_def keyed_def)
  have n: "[97 :: 16 word] \<noteq> []" by simp
  have w: "list_all (\<lambda>b. constructedWeight (weight b)) (candidates samplePool (keyed [97]))"
    by (rule candidates_constructed[OF samplePool_constructed])
  from getBridge_affinity_deterministic[OF i k k n w, of 0 "3 / 4"]
  have "map_sum id snapshotIdentity (getBridge samplePool (keyed [97]) 0) =
        map_sum id snapshotIdentity (getBridge probedPool (keyed [97]) (3 / 4))"
    by (rule conjunct1)
  with i d w getBridge_keyed_sample[of 0] show ?thesis by blast
qed

text \<open>With the empty string as the key the guard \<open>options?.affinityKey && ...\<close> is false
  and the draw decides: on the same pool, 0 gives bridge \<open>a\<close> and 3/4 gives bridge \<open>b\<close>.\<close>

theorem getBridge_empty_key_counterexample:
  "getBridge samplePool (keyed []) 0 = Inr (snapshot (newInstance sampleDefA)) \<and>
   getBridge samplePool (keyed []) (3 / 4) = Inr (snapshot (newInstance sampleDefB)) \<and>
   getBridge samplePool (keyed []) 0 \<noteq> getBridge samplePool (keyed []) (3 / 4)"
proof -
  have k: "keyOf (keyed []) = Some []" by (simp add: keyOf_def keyed_def)
  have ne: "snapshot (newInstance sampleDefA) \<noteq> snapshot (newInstance sampleDefB)"
    by (simp add: snapshot_def newInstance_def sampleDefA_def sampleDefB_def)
  have 1: "getBridge samplePool (keyed []) 0 = Inr (snapshot (newInstance sampleDefA))"
    by (simp add: getBridge_def candidates_samplePool k totalWeight_samplePool sample_weights
          roundToDouble_0 roundToDouble_1 Let_def)
  have 2: "getBridge samplePool (keyed []) (3 / 4) = Inr (snapshot (newInstance sampleDefB))"
    by (simp add: getBridge_def candidates_samplePool k totalWeight_samplePool sample_weights
          roundToDouble_1 roundToDouble_2 roundToDouble_3_2 Let_def)
  show ?thesis using 1 2 ne by simp
qed

section \<open>\<open>POST /session\<close>: the replies\<close>

lemma offerSteps_iff:
  "offerSteps env sdpOffer \<longleftrightarrow>
   (\<exists>conf u endpoint au ss ok.
      createConferenceForLine env = Inr conf \<and> createUserSession env = Inr u \<and>
      createEndpoint env = Inr endpoint \<and> audio endpoint = Some au \<and> ssrcs au = Some ss \<and>
      updateSession env = Inr ok \<and> createConnection env = Inr sdpOffer)"
  by (auto simp add: offerSteps_def incompleteEndpoint_def split: sum.splits option.splits)

lemma postSession_status: "statusCode (fst (postSession env sid)) \<in> {201, 400, 500}"
  by (simp add: postSession_def postSessionTry_def split: sum.splits option.splits)

lemma postSession_no_offer:
  "statusCode (fst (postSession env sid)) \<noteq> 201 \<Longrightarrow>
   offerOf (payload (fst (postSession env sid))) = None"
  by (auto simp add: postSession_def postSessionTry_def
           split: sum.splits option.splits if_splits)

lemma postSession_201_iff:
  "(statusCode (fst (postSession env sid)) = 201) =
   (\<exists>sdp. sdp \<noteq> [] \<and> offerSteps env (Some sdp))"
  unfolding offerSteps_iff
  by (auto simp add: postSession_def postSessionTry_def falsyStr_def
           split: sum.splits option.splits if_splits)

lemma postSession_201:
  "sdp \<noteq> [] \<Longrightarrow> offerSteps env (Some sdp) \<Longrightarrow>
   postSession env sid =
     (\<lparr> statusCode = 201, payload = SessionResponse sid sdp \<rparr>,
      [CreateConferenceForLine, CreateUserSession, CreateEndpoint, UpdateSession,
       CreateConnection])"
  unfolding offerSteps_iff
  by (auto simp add: postSession_def postSessionTry_def falsyStr_def)

lemma postSession_400_iff:
  "(statusCode (fst (postSession env sid)) = 400) =
   (\<exists>sdp. falsyStr sdp \<and> offerSteps env sdp)"
  unfolding offerSteps_iff
  by (auto simp add: postSession_def postSessionTry_def
           split: sum.splits option.splits if_splits)

lemma postSession_incomplete:
  "createConferenceForLine env = Inr conf \<Longrightarrow> createUserSession env = Inr u \<Longrightarrow>
   createEndpoint env = Inr endpoint \<Longrightarrow> incompleteEndpoint endpoint \<Longrightarrow>
   statusCode (fst (postSession env sid)) = 500 \<and>
   snd (postSession env sid) = [CreateConferenceForLine, CreateUserSession, CreateEndpoint]"
  by (auto simp add: postSession_def postSessionTry_def incompleteEndpoint_def
           split: option.splits)

text \<open>
  Claim C1, as amended. The handler of \<open>POST /session\<close> replies 201, 400 or 500. It
  replies 201, with the generated session id and the SDP offer, exactly when every step
  returns, the endpoint description has its audio part with ssrcs, and
  \<open>createConnection\<close> gives a non-empty offer; it replies 400 exactly when all that holds
  but \<open>createConnection\<close> gives no offer. No reply other than the 201 carries an offer.
  When the endpoint description lacks the audio part or the ssrcs, the handler throws:
  the reply is 500, and neither \<open>updateSession\<close> nor \<open>createConnection\<close> is called.
\<close>

theorem postSession_replies:
  "statusCode (fst (postSession env sid)) \<in> {201, 400, 500} \<and>
   (statusCode (fst (postSession env sid)) = 201) =
     (\<exists>sdp. sdp \<noteq> [] \<and> offerSteps env (Some sdp)) \<and>
   (sdp \<noteq> [] \<and> offerSteps env (Some sdp) \<longrightarrow>
      postSession env sid =
        (\<lparr> statusCode = 201, payload = SessionResponse sid sdp \<rparr>,
         [CreateConferenceForLine, CreateUserSession, CreateEndpoint, UpdateSession,
          CreateConnection])) \<and>
   (statusCode (fst (postSession env sid)) = 400) =
     (\<exists>sdp. falsyStr sdp \<and> offerSteps env sdp) \<and>
   (statusCode (fst (postSession env sid)) \<noteq> 201 \<longrightarrow>
      offerOf (payload (fst (postSession env sid))) = None) \<and>
   (createConferenceForLine env = Inr conf \<and> createUserSession env = Inr u \<and>
    createEndpoint env = Inr endpoint \<and> incompleteEndpoint endpoint \<longrightarrow>
      statusCode (fst (postSession env sid)) = 500 \<and>
      snd (postSession env sid) =
        [CreateConferenceForLine, CreateUserSession, CreateEndpoint])"
proof (intro conjI impI)
  show "statusCode (fst (postSession env sid)) \<in> {201, 400, 500}"
    by (rule postSession_status)
  show "(statusCode (fst (postSession env sid)) = 201) =
          (\<exists>sdp. sdp \<noteq> [] \<and> offerSteps env (Some sdp))"
    by (rule postSession_201_iff)
  show "(statusCode (fst (postSession env sid)) = 400) =
          (\<exists>sdp. falsyStr sdp \<and> offerSteps env sdp)"
    by (rule postSession_400_iff)
next
  assume "sdp \<noteq> [] \<and> offerSteps env (Some sdp)"
  then show "postSession env sid =
        (\<lparr> statusCode = 201, payload = SessionResponse sid sdp \<rparr>,
         [CreateConferenceForLine, CreateUserSession, CreateEndpoint, UpdateSession,
          CreateConnection])"
    by (simp add: postSession_201)
next
  assume "statusCode (fst (postSession env sid)) \<noteq> 201"
  then show "offerOf (payload (fst (postSession env sid))) = None"
    by (rule postSession_no_offer)
next
  assume a: "createConferenceForLine env = Inr conf \<and> createUserSession env = Inr u \<and>
    createEndpoint env = Inr endpoint \<and> incompleteEndpoint endpoint"
  then show "statusCode (fst (postSession env sid)) = 500"
    using postSession_incomplete[of env conf u endpoint sid] by simp
  from a show "snd (postSession env sid) =
        [CreateConferenceForLine, CreateUserSession, CreateEndpoint]"
    using postSession_incomplete[of env conf u endpoint sid] by simp
qed

lemma offerSteps_sampleCalls: "offerSteps sampleCalls (Some ''v=0'')"
  by (simp add: offerSteps_def sampleCalls_def incompleteEndpoint_def)

lemma noSsrcsCalls_steps:
  "createConferenceForLine noSsrcsCalls = Inr ''conf-1'' \<and>
   createUserSession noSsrcsCalls = Inr () \<and>
   createEndpoint noSsrcsCalls = Inr \<lparr> audio = Some \<lparr> ssrcs = None \<rparr> \<rparr> \<and>
   incompleteEndpoint \<lparr> audio = Some \<lparr> ssrcs = None \<rparr> \<rparr>"
  by (simp add: noSsrcsCalls_def sampleCalls_def incompleteEndpoint_def)

text \<open>A request whose steps all return is answered 201 with its session id and the
  offer; one whose endpoint description has no ssrcs is answered 500 after
  \<open>createEndpoint\<close>, with no offer.\<close>

theorem postSession_replies_witness:
  "postSession sampleCalls ''s1'' =
     (\<lparr> statusCode = 201, payload = SessionResponse ''s1'' ''v=0'' \<rparr>,
      [CreateConferenceForLine, CreateUserSession, CreateEndpoint, UpdateSession,
       CreateConnection]) \<and>
   statusCode (fst (postSession noSsrcsCalls ''s2'')) = 500 \<and>
   snd (postSession noSsrcsCalls ''s2'') =
     [CreateConferenceForLine, CreateUserSession, CreateEndpoint] \<and>
   offerOf (payload (fst (postSession noSsrcsCalls ''s2''))) = None"
proof -
  note t1 = postSession_replies[of sampleCalls "''s1''" "''v=0''"]
  note t2 = postSession_replies
              [of noSsrcsCalls "''s2''" _ "''conf-1''" "()" "\<lparr> audio = Some \<lparr> ssrcs = None \<rparr> \<rparr>"]
  have ne: "''v=0'' \<noteq> []" by simp
  have 1: "postSession sampleCalls ''s1'' =
     (\<lparr> statusCode = 201, payload = SessionResponse ''s1'' ''v=0'' \<rparr>,
      [CreateConferenceForLine, CreateUserSession, CreateEndpoint, UpdateSession,
       CreateConnection])"
    using t1 ne offerSteps_sampleCalls by blast
  have 2: "statusCode (fst (postSession noSsrcsCalls ''s2'')) = 500 \<and>
      snd (postSession noSsrcsCalls ''s2'') =
        [CreateConferenceForLine, CreateUserSession, CreateEndpoint]"
    using t2 noSsrcsCalls_steps by blast
  then have "statusCode (fst (postSession noSsrcsCalls ''s2'')) \<noteq> 201" by simp
  then have 3: "offerOf (payload (fst (postSession noSsrcsCalls ''s2''))) = None"
    using t2 by blast
  show ?thesis using 1 2 3 by blast
qed

text \<open>The bridge returns an endpoint description without the audio part: the reply is
  500, neither 201 nor 400.\<close>

theorem postSession_missing_audio_counterexample:
  "createEndpoint noAudioCalls = Inr \<lparr> audio = None \<rparr> \<and>
   postSession noAudioCalls ''s1'' =
     (\<lparr> statusCode = 500,
        payload = Text (''Exception thrown when trying to create endpoint: '' @
                        ''Error: Missing audio when creating sdp offer for endpoint'') \<rparr>,
      [CreateConferenceForLine, CreateUserSession, CreateEndpoint]) \<and>
   statusCode (fst (postSession noAudioCalls ''s1'')) \<noteq> 201 \<and>
   statusCode (fst (postSession noAudioCalls ''s1'')) \<noteq> 400"
  by (simp add: postSession_def postSessionTry_def noAudioCalls_def sampleCalls_def)

section \<open>\<open>PATCH /session/:sessionId\<close>: retries and replies\<close>

lemma retryRead_stop:
  "\<not> (i < 5 \<and> needsRetry us) \<Longrightarrow> retryRead rd i slept us = Inr (us, i, slept)"
  by (subst retryRead.simps) auto

lemma retryRead_step:
  "i < 5 \<Longrightarrow> needsRetry us \<Longrightarrow>
   retryRead rd i slept us =
     (case rd (Suc i) of Inl err \<Rightarrow> Inl err
      | Inr us2 \<Rightarrow> retryRead rd (Suc i) (slept + 100) us2)"
  by (subst retryRead.simps) auto

text \<open>What a returning loop has seen: every read before the last asked for a retry, the
  last one is the result, and the loop stopped because it had what it needs or had used
  its five re-reads; it slept 100 ms before each re-read.\<close>

lemma retryRead_result:
  "retryRead rd i slept us = Inr (us2, i2, slept2) \<Longrightarrow> rd i = Inr us \<Longrightarrow> i \<le> 5 \<Longrightarrow>
   i \<le> i2 \<and> i2 \<le> 5 \<and> (\<forall>j. i \<le> j \<and> j < i2 \<longrightarrow> retrying rd j) \<and> rd i2 = Inr us2 \<and>
   (i2 = 5 \<or> \<not> needsRetry us2) \<and> slept2 = slept + 100 * (i2 - i)"
proof (induction rd i slept us rule: retryRead.induct)
  case (1 rd i slept us)
  show ?case
  proof (cases "i < 5 \<and> needsRetry us")
    case False
    then have "retryRead rd i slept us = Inr (us, i, slept)" by (rule retryRead_stop)
    with "1.prems" False show ?thesis by auto
  next
    case True
    then obtain u where u: "rd (Suc i) = Inr u"
      and r: "retryRead rd (Suc i) (slept + 100) u = Inr (us2, i2, slept2)"
      using "1.prems"(1) by (auto simp add: retryRead_step split: sum.splits)
    have ih: "Suc i \<le> i2 \<and> i2 \<le> 5 \<and> (\<forall>j. Suc i \<le> j \<and> j < i2 \<longrightarrow> retrying rd j) \<and>
        rd i2 = Inr us2 \<and> (i2 = 5 \<or> \<not> needsRetry us2) \<and>
        slept2 = slept + 100 + 100 * (i2 - Suc i)"
      using "1.IH"[OF True u r u] True by simp
    have ri: "retrying rd i" using True "1.prems"(2) by (simp add: retrying_def)
    have "\<forall>j. i \<le> j \<and> j < i2 \<longrightarrow> retrying rd j"
    proof (intro allI impI)
      fix j assume "i \<le> j \<and> j < i2"
      then show "retrying rd j" using ih ri by (cases "j = i") auto
    qed
    moreover have "slept2 = slept + 100 * (i2 - i)" using ih by auto
    ultimately show ?thesis using ih by auto
  qed
qed

lemma retryRead_reaches:
  "rd i = Inr us \<Longrightarrow> i \<le> k \<Longrightarrow> k \<le> 5 \<Longrightarrow> (\<forall>j. i \<le> j \<and> j < k \<longrightarrow> retrying rd j) \<Longrightarrow>
   rd k = Inr usk \<Longrightarrow> k = 5 \<or> \<not> needsRetry usk \<Longrightarrow>
   retryRead rd i slept us = Inr (usk, k, slept + 100 * (k - i))"
proof (induction rd i slept us rule: retryRead.induct)
  case (1 rd i slept us)
  show ?case
  proof (cases "i = k")
    case True
    then have "us = usk" using "1.prems" by simp
    then show ?thesis using True "1.prems"(6) by (auto simp add: retryRead_stop)
  next
    case False
    then have lt: "i < k" using "1.prems"(2) by simp
    then have "retrying rd i" using "1.prems"(4) by simp
    then have nr: "needsRetry us" using "1.prems"(1) by (simp add: retrying_def)
    have i5: "i < 5" using lt "1.prems"(3) by simp
    have "retrying rd (Suc i) \<or> Suc i = k" using "1.prems"(4) lt by (cases "Suc i = k") auto
    then obtain u where u: "rd (Suc i) = Inr u"
      using "1.prems"(5) by (auto simp add: retrying_def split: sum.splits)
    have "retryRead rd (Suc i) (slept + 100) u =
            Inr (usk, k, slept + 100 + 100 * (k - Suc i))"
      using "1.IH"[OF conjI[OF i5 nr] u u _ "1.prems"(3) _ "1.prems"(5) "1.prems"(6)]
            lt "1.prems"(4)
      by simp
    moreover have "slept + 100 + 100 * (k - Suc i) = slept + 100 * (k - i)" using lt by simp
    ultimately show ?thesis using i5 nr u by (simp add: retryRead_step)
  qed
qed

lemma list_all_upt: "list_all P [0..<k] = (\<forall>j. 0 \<le> j \<and> j < k \<longrightarrow> P j)"
  by (auto simp add: list_all_iff)

lemma patch_loop_ready:
  assumes "sessionReadyAt env k s"
  shows "\<exists>u. getSession env 0 = Inr u \<and>
             retryRead (getSession env) 0 0 u = Inr (Some s, k, 100 * k)"
proof -
  from assms have k: "k \<le> 5" and all: "\<forall>j. 0 \<le> j \<and> j < k \<longrightarrow> retrying (getSession env) j"
    and rk: "getSession env k = Inr (Some s)" and d: "\<not> needsRetry (Some s)"
    by (auto simp add: sessionReadyAt_def list_all_upt needsRetry_def)
  have "\<exists>u. getSession env 0 = Inr u"
  proof (cases "k = 0")
    case True
    then show ?thesis using rk by simp
  next
    case False
    then have "retrying (getSession env) 0" using all by simp
    then show ?thesis by (auto simp add: retrying_def split: sum.splits)
  qed
  then obtain u where u: "getSession env 0 = Inr u" by blast
  have "retryRead (getSession env) 0 0 u = Inr (Some s, k, 0 + 100 * (k - 0))"
    using retryRead_reaches[OF u _ k all rk] d by simp
  then show ?thesis using u by simp
qed

lemma patch_loop_unknown:
  assumes "sessionUnknown env"
  shows "\<exists>u. getSession env 0 = Inr u \<and>
             retryRead (getSession env) 0 0 u = Inr (None, 5, 500)"
proof -
  from assms have all: "\<forall>j. 0 \<le> j \<and> j < 5 \<longrightarrow> retrying (getSession env) j"
    and rk: "getSession env 5 = Inr None"
    by (auto simp add: sessionUnknown_def list_all_upt)
  have "retrying (getSession env) 0" using all by simp
  then obtain u where u: "getSession env 0 = Inr u" by (auto simp add: retrying_def split: sum.splits)
  have "retryRead (getSession env) 0 0 u = Inr (None, 5, 0 + 100 * (5 - 0))"
    using retryRead_reaches[OF u _ _ all rk] by simp
  then show ?thesis using u by simp
qed

lemma applyAnswer_204:
  assumes d: "us_sessionDescription s \<noteq> None" and a: "answerSucceeds env s"
  shows "applyAnswer env s = (Inr \<lparr> statusCode = 204, payload = NoPayload \<rparr>,
            [UpdateSession, RequireProduction, RequireLine, HandleAnswerRequest])"
proof -
  from a obtain ok where 1: "p_updateSession env = Inr ok"
    by (cases "p_updateSession env") (auto simp add: answerSucceeds_def)
  from a obtain p where 2: "requireProduction_r env = Inr p"
    by (cases "requireProduction_r env") (auto simp add: answerSucceeds_def)
  from a obtain ln where 3: "requireLine_r env = Inr ln"
    by (cases "requireLine_r env") (auto simp add: answerSucceeds_def)
  from a obtain un where 4: "handleAnswerRequest env = Inr un"
    by (cases "handleAnswerRequest env") (auto simp add: answerSucceeds_def)
  from a have 5: "\<not> falsyStr (us_endpointId s)" by (simp add: answerSucceeds_def)
  from d obtain dd where 6: "us_sessionDescription s = Some dd" by auto
  show ?thesis by (simp add: applyAnswer_def 1 2 3 4 5 6)
qed

lemma applyAnswer_status:
  "(case fst (applyAnswer env s) of
      Inl err \<Rightarrow> True
    | Inr r \<Rightarrow> r = \<lparr> statusCode = 204, payload = NoPayload \<rparr>)"
  by (simp add: applyAnswer_def split: sum.splits option.splits)

lemma applyAnswer_Inr:
  assumes "fst (applyAnswer env s) = Inr r"
  shows "us_sessionDescription s \<noteq> None \<and> answerSucceeds env s"
  using assms
  by (simp add: applyAnswer_def answerSucceeds_def split: sum.splits option.splits if_splits)

lemma patch_204:
  assumes r: "sessionReadyAt env k s" and a: "answerSucceeds env s"
  shows "patchSession env sid = (\<lparr> statusCode = 204, payload = NoPayload \<rparr>,
            [UpdateSession, RequireProduction, RequireLine, HandleAnswerRequest]) \<and>
         patchRetries env = Some (k, 100 * k)"
proof -
  from patch_loop_ready[OF r] obtain u where u: "getSession env 0 = Inr u"
    and l: "retryRead (getSession env) 0 0 u = Inr (Some s, k, 100 * k)" by auto
  from r have d: "us_sessionDescription s \<noteq> None" by (auto simp add: sessionReadyAt_def)
  show ?thesis using u l applyAnswer_204[OF d a]
    by (simp add: patchSession_def patchSessionTry_def patchRetries_def)
qed

lemma patch_410:
  assumes "sessionUnknown env"
  shows "patchSession env sid = (\<lparr> statusCode = 410, payload = ErrorResponse (notFoundMessage sid) None \<rparr>, []) \<and>
         patchRetries env = Some (5, 500)"
proof -
  from patch_loop_unknown[OF assms] obtain u where u: "getSession env 0 = Inr u"
    and l: "retryRead (getSession env) 0 0 u = Inr (None, 5, 500)" by auto
  show ?thesis using u l by (simp add: patchSession_def patchSessionTry_def patchRetries_def)
qed

lemma patchSession_cases:
  "(\<exists>err calls. patchSessionTry env sid = (Inl err, calls)) \<or>
   (\<exists>u i slept. getSession env 0 = Inr u \<and> retryRead (getSession env) 0 0 u = Inr (None, i, slept) \<and>
       patchSessionTry env sid = (Inr \<lparr> statusCode = 410, payload = ErrorResponse (notFoundMessage sid) None \<rparr>, [])) \<or>
   (\<exists>u i slept s calls. getSession env 0 = Inr u \<and> retryRead (getSession env) 0 0 u = Inr (Some s, i, slept) \<and>
       fst (applyAnswer env s) = Inr \<lparr> statusCode = 204, payload = NoPayload \<rparr> \<and>
       patchSessionTry env sid = (Inr \<lparr> statusCode = 204, payload = NoPayload \<rparr>, calls))"
proof (cases "getSession env 0")
  case (Inl e)
  then show ?thesis by (simp add: patchSessionTry_def)
next
  case (Inr u)
  show ?thesis
  proof (cases "retryRead (getSession env) 0 0 u")
    case (Inl e)
    then show ?thesis using Inr by (simp add: patchSessionTry_def)
  next
    case r: (Inr t)
    obtain us i slept where t: "t = (us, i, slept)" by (cases t) auto
    show ?thesis
    proof (cases us)
      case None
      then show ?thesis using Inr r t by (simp add: patchSessionTry_def)
    next
      case (Some s)
      have p: "patchSessionTry env sid = applyAnswer env s"
        using Inr r t Some by (simp add: patchSessionTry_def)
      show ?thesis
      proof (cases "fst (applyAnswer env s)")
        case (Inl e)
        then have "applyAnswer env s = (Inl e, snd (applyAnswer env s))" by (metis prod.collapse)
        then have "\<exists>err calls. patchSessionTry env sid = (Inl err, calls)" using p by auto
        then show ?thesis by blast
      next
        case a: (Inr rp)
        then have rp: "rp = \<lparr> statusCode = 204, payload = NoPayload \<rparr>"
          using applyAnswer_status[of env s] by simp
        have "applyAnswer env s = (Inr rp, snd (applyAnswer env s))" using a by (metis prod.collapse)
        then have "\<exists>calls. patchSessionTry env sid = (Inr rp, calls)" using p by auto
        then have "\<exists>u i slept s calls. getSession env 0 = Inr u \<and>
            retryRead (getSession env) 0 0 u = Inr (Some s, i, slept) \<and>
            fst (applyAnswer env s) = Inr \<lparr> statusCode = 204, payload = NoPayload \<rparr> \<and>
            patchSessionTry env sid = (Inr \<lparr> statusCode = 204, payload = NoPayload \<rparr>, calls)"
          using Inr r t Some rp a by blast
        then show ?thesis by blast
      qed
    qed
  qed
qed

lemma patch_status: "statusCode (fst (patchSession env sid)) \<in> {204, 410, 500}"
  using patchSession_cases[of env sid] by (auto simp add: patchSession_def)

lemma patch_retries_bound:
  assumes "patchRetries env = Some (i, slept)"
  shows "i \<le> 5 \<and> slept = 100 * i"
proof -
  from assms obtain u us2 where u: "getSession env 0 = Inr u"
    and l: "retryRead (getSession env) 0 0 u = Inr (us2, i, slept)"
    by (auto simp add: patchRetries_def split: sum.splits prod.splits)
  from retryRead_result[OF l u] show ?thesis by simp
qed

lemma patch_410_only:
  assumes "statusCode (fst (patchSession env sid)) = 410"
  shows "sessionUnknown env"
proof -
  from assms patchSession_cases[of env sid] obtain u i slept where u: "getSession env 0 = Inr u"
    and l: "retryRead (getSession env) 0 0 u = Inr (None, i, slept)"
    by (auto simp add: patchSession_def)
  from retryRead_result[OF l u] have "i = 5" and "\<forall>j. 0 \<le> j \<and> j < i \<longrightarrow> retrying (getSession env) j"
    and "getSession env i = Inr None"
    by (auto simp add: needsRetry_def)
  then show ?thesis by (simp add: sessionUnknown_def list_all_upt)
qed

lemma patch_204_only:
  assumes "statusCode (fst (patchSession env sid)) = 204"
  shows "\<exists>k s. sessionReadyAt env k s \<and> answerSucceeds env s"
proof -
  from assms patchSession_cases[of env sid] obtain u i slept s where u: "getSession env 0 = Inr u"
    and l: "retryRead (getSession env) 0 0 u = Inr (Some s, i, slept)"
    and a: "fst (applyAnswer env s) = Inr \<lparr> statusCode = 204, payload = NoPayload \<rparr>"
    by (auto simp add: patchSession_def)
  from applyAnswer_Inr[OF a] have d: "us_sessionDescription s \<noteq> None" and ok: "answerSucceeds env s" by auto
  from retryRead_result[OF l u] have "i \<le> 5" and "\<forall>j. 0 \<le> j \<and> j < i \<longrightarrow> retrying (getSession env) j"
    and "getSession env i = Inr (Some s)"
    by auto
  then have "sessionReadyAt env i s" using d by (simp add: sessionReadyAt_def list_all_upt)
  then show ?thesis using ok by blast
qed


text \<open>
  Claim C2. When the session document with its \<open>sessionDescription\<close> is found, at the
  first read or at one of at most five re-reads spaced 100 ms apart, and no other step
  fails, the handler of \<open>PATCH /session/:sessionId\<close> hands the answer to
  \<open>handleAnswerRequest\<close> and replies 204. When the session id is still unknown at the
  fifth re-read it replies 410, having slept 500 ms. It replies 204 and 410 in these
  cases only, and 500 in every other case. The loop never makes more than five re-reads,
  and it has slept 100 ms for each.
\<close>

theorem patchSession_replies:
  "(sessionReadyAt env k s \<and> answerSucceeds env s \<longrightarrow>
      patchSession env sid =
        (\<lparr> statusCode = 204, payload = NoPayload \<rparr>,
         [UpdateSession, RequireProduction, RequireLine, HandleAnswerRequest]) \<and>
      patchRetries env = Some (k, 100 * k)) \<and>
   (sessionUnknown env \<longrightarrow>
      patchSession env sid =
        (\<lparr> statusCode = 410, payload = ErrorResponse (notFoundMessage sid) None \<rparr>, []) \<and>
      patchRetries env = Some (5, 500)) \<and>
   (statusCode (fst (patchSession env sid)) = 204 \<longrightarrow>
      (\<exists>k2 s2. sessionReadyAt env k2 s2 \<and> answerSucceeds env s2)) \<and>
   (statusCode (fst (patchSession env sid)) = 410 \<longrightarrow> sessionUnknown env) \<and>
   statusCode (fst (patchSession env sid)) \<in> {204, 410, 500} \<and>
   (patchRetries env = Some (i, slept) \<longrightarrow> i \<le> 5 \<and> slept = 100 * i)"
proof (intro conjI impI)
  assume a: "sessionReadyAt env k s \<and> answerSucceeds env s"
  then show "patchSession env sid =
        (\<lparr> statusCode = 204, payload = NoPayload \<rparr>,
         [UpdateSession, RequireProduction, RequireLine, HandleAnswerRequest])"
    using patch_204[of env k s sid] by simp
  from a show "patchRetries env = Some (k, 100 * k)"
    using patch_204[of env k s sid] by simp
next
  assume a: "sessionUnknown env"
  then show "patchSession env sid =
        (\<lparr> statusCode = 410, payload = ErrorResponse (notFoundMessage sid) None \<rparr>, [])"
    using patch_410[of env sid] by simp
  from a show "patchRetries env = Some (5, 500)"
    using patch_410[of env sid] by simp
next
  assume "statusCode (fst (patchSession env sid)) = 204"
  then show "\<exists>k2 s2. sessionReadyAt env k2 s2 \<and> answerSucceeds env s2"
    by (rule patch_204_only)
next
  assume "statusCode (fst (patchSession env sid)) = 410"
  then show "sessionUnknown env" by (rule patch_410_only)
next
  show "statusCode (fst (patchSession env sid)) \<in> {204, 410, 500}" by (rule patch_status)
next
  assume a: "patchRetries env = Some (i, slept)"
  then show "i \<le> 5" using patch_retries_bound[of env i slept] by simp
  from a show "slept = 100 * i" using patch_retries_bound[of env i slept] by simp
qed

lemma lateWrite_ready: "sessionReadyAt lateWrite 2 sampleSession"
  by (simp add: sessionReadyAt_def list_all_upt retrying_def needsRetry_def lateWrite_def
        sampleSession_def)

lemma lateWrite_succeeds: "answerSucceeds lateWrite sampleSession"
  by (simp add: answerSucceeds_def lateWrite_def sampleSession_def falsyStr_def)

lemma neverCreated_unknown: "sessionUnknown neverCreated"
  by (simp add: sessionUnknown_def list_all_upt retrying_def needsRetry_def neverCreated_def
        lateWrite_def)

text \<open>A document that becomes readable at the second re-read is answered 204 after
  200 ms of sleep; an id that was never created is answered 410 after five re-reads and
  500 ms.\<close>

theorem patchSession_replies_witness:
  "patchSession lateWrite ''s1'' =
     (\<lparr> statusCode = 204, payload = NoPayload \<rparr>,
      [UpdateSession, RequireProduction, RequireLine, HandleAnswerRequest]) \<and>
   patchRetries lateWrite = Some (2, 200) \<and>
   patchSession neverCreated ''s9'' =
     (\<lparr> statusCode = 410, payload = ErrorResponse (notFoundMessage ''s9'') None \<rparr>, []) \<and>
   patchRetries neverCreated = Some (5, 500)"
proof -
  note t1 = patchSession_replies[of lateWrite 2 sampleSession "''s1''"]
  note t2 = patchSession_replies[of neverCreated _ _ "''s9''"]
  have 1: "patchSession lateWrite ''s1'' =
     (\<lparr> statusCode = 204, payload = NoPayload \<rparr>,
      [UpdateSession, RequireProduction, RequireLine, HandleAnswerRequest]) \<and>
     patchRetries lateWrite = Some (2, 100 * 2)"
    using t1 lateWrite_ready lateWrite_succeeds by blast
  have 2: "patchSession neverCreated ''s9'' =
     (\<lparr> statusCode = 410, payload = ErrorResponse (notFoundMessage ''s9'') None \<rparr>, []) \<and>
     patchRetries neverCreated = Some (5, 500)"
    using t2 neverCreated_unknown by blast
  show ?thesis using 1 2 by simp
qed

section \<open>\<open>DELETE /production/:productionId/line/:lineId\<close>\<close>









section \<open>\<open>GET /heartbeat/:sessionId\<close>\<close>














section \<open>Participant ordering\<close>



































lemma asciiLower_A: "asciiLower CHR ''A'' = CHR ''a''"
  by (simp add: asciiLower_def)

lemma asciiLower_small: "asciiLower CHR ''a'' = CHR ''a''" "asciiLower CHR ''n'' = CHR ''n''"
  "asciiLower CHR ''b'' = CHR ''b''" "asciiLower CHR ''o'' = CHR ''o''"
  by (simp_all add: asciiLower_def)

lemma sample_localeCompareBase:
  "localeCompareBase sampleCollation a b =
   codeUnitCompare (map asciiLower a) (map asciiLower b)"
  by (simp add: sampleCollation_def)

lemma sample_localeCompare: "localeCompare sampleCollation = codeUnitCompare"
  by (simp add: sampleCollation_def)

lemma sample_toLocaleLowerCase: "toLocaleLowerCase sampleCollation = map asciiLower"
  by (simp add: sampleCollation_def)

lemma sample_keys: "nameKey sampleCollation ann = ''ann''" "nameKey sampleCollation ann2 = ''ann''"
  "nameKey sampleCollation bob = ''bob''"
  "idKey ann = ''s1''" "idKey ann2 = ''s0''" "idKey bob = ''s2''"
  by (simp_all add: nameKey_def idKey_def sample_toLocaleLowerCase ann_def ann2_def bob_def asciiLower_A asciiLower_small)

lemma sample_comparisons:
  "compareParticipants sampleCollation ann bob = -1"
  "compareParticipants sampleCollation bob ann = 1"
  "compareParticipants sampleCollation ann2 bob = -1"
  "compareParticipants sampleCollation bob ann2 = 1"
  "compareParticipants sampleCollation ann ann2 = 1"
  "compareParticipants sampleCollation ann2 ann = -1"
  by (simp_all add: compareParticipants_def sample_keys Let_def sample_localeCompareBase sample_localeCompare asciiLower_small)


lemma sort_ann2_bob_ann: "sortParticipants sampleCollation [ann2, bob, ann] = [ann2, ann, bob]"
  by (simp add: sortParticipants_def arraySort_def sample_comparisons)







section \<open>The long poll for participants\<close>

text \<open>Once the promise is resolved, the listener removed and the timer disarmed, no
  later event changes anything.\<close>

lemma eventLoop_settled:
  "\<not> listening w \<Longrightarrow> \<not> timerArmed w \<Longrightarrow> eventLoop now gaps w = w"
  by (induction gaps arbitrary: now) (simp_all add: timerDue_def emitUsersChange_def)

lemma timerDue_subscribed:
  "timerDue timeoutMs subscribed =
     \<lparr> listening = False, timerArmed = False, resolvedAt = Some timeoutMs \<rparr>"
  by (simp add: timerDue_def onTimeout_def resolve_def subscribed_def)

lemma emitUsersChange_subscribed:
  "emitUsersChange t subscribed =
     \<lparr> listening = False, timerArmed = False, resolvedAt = Some t \<rparr>"
  by (simp add: emitUsersChange_def onChange_def resolve_def subscribed_def)

lemma eventLoop_subscribed:
  "eventLoop 0 gaps subscribed =
     \<lparr> listening = False, timerArmed = False, resolvedAt = Some (expectedResolution gaps) \<rparr>"
proof (cases gaps)
  case Nil
  then show ?thesis by (simp add: timerDue_subscribed expectedResolution_def)
next
  case (Cons gap rest)
  show ?thesis
  proof (cases "timeoutMs \<le> gap")
    case True
    then show ?thesis
      using Cons
      by (simp add: timerDue_subscribed emitUsersChange_def eventLoop_settled
            expectedResolution_def)
  next
    case False
    then show ?thesis
      using Cons
      by (simp add: emitUsersChange_subscribed eventLoop_settled expectedResolution_def)
  qed
qed

lemma matches_lineQuery:
  "matches (lineQuery productionId lineId) =
   (\<lambda>s. us_productionId s = productionId \<and> us_lineId s = lineId \<and> \<not> us_isExpired s)"
  by (rule ext) (simp add: matches_def lineQuery_def)

lemma getSessionsByQuery_every_match:
  assumes "returnsEveryMatch store (lineQuery productionId lineId)"
  shows "getSessionsByQuery (Inr store) (lineQuery productionId lineId) =
         Inr (filter (\<lambda>s. us_productionId s = productionId \<and> us_lineId s = lineId \<and>
                           \<not> us_isExpired s) (documents store))"
proof (cases "backend store")
  case MongoDb
  then show ?thesis by (simp add: getSessionsByQuery_def matches_lineQuery)
next
  case CouchDb
  then have "length (filter (matches (lineQuery productionId lineId)) (documents store))
             \<le> couchFindLimit"
    using assms by (simp add: returnsEveryMatch_def)
  then show ?thesis using CouchDb by (simp add: getSessionsByQuery_def matches_lineQuery)
qed

lemma participantsReply_lineQuery:
  "participantsReply c db productionId lineId =
     (case getSessionsByQuery db (lineQuery productionId lineId) of
        Inl err \<Rightarrow>
          \<lparr> statusCode = 500,
            payload = Text (''Exception thrown when trying to set connection status for session: ''
                            @ error_toString err) \<rparr>
      | Inr dbSessions \<Rightarrow>
          \<lparr> statusCode = 200,
            payload = Participants (sortParticipants c (map toParticipant dbSessions)) \<rparr>)"
  by (simp add: participantsReply_def lineQuery_def)

lemma getSessionsByQuery_Inr: "\<exists>found. getSessionsByQuery (Inr store) q = Inr found"
  by (cases "backend store") (simp_all add: getSessionsByQuery_def)

text \<open>On CouchDB a query that more than 25 documents match returns 25 of them.\<close>

lemma getSessionsByQuery_truncated:
  assumes "backend store = CouchDb"
    and "25 < length (filter (matches q) (documents store))"
  shows "\<exists>found. getSessionsByQuery (Inr store) q = Inr found \<and> length found = 25"
  using assms by (simp add: getSessionsByQuery_def couchFindLimit_def)

text \<open>
  Claim C6, as amended. Every long-poll request is answered: the promise is resolved by
  the first \<open>users:change\<close> that is emitted before the 25000 ms are over, at the time of
  that emission, and by the timer at 25000 ms otherwise, also when nothing is ever
  emitted; so it is resolved at 25000 ms at the latest, and by then the listener is
  removed and the timer disarmed. The handler then queries the store. If the store
  answers, the reply is 200, with the participants, sorted, of the sessions the store
  returned; these are all the sessions that are then on the line and not expired when
  the store returns every match, as MongoDB does and CouchDB does for up to 25 matches.
  The reply does not depend on whether a notification or the timer ended the wait. If
  the query throws, the reply is 500.
\<close>

theorem participantsPoll_resolves:
  "participantsPoll c gaps dbAt productionId lineId =
     Some (expectedResolution gaps,
           participantsReply c (dbAt (expectedResolution gaps)) productionId lineId) \<and>
   expectedResolution gaps \<le> 25000 \<and>
   expectedResolution [] = 25000 \<and>
   (gap < 25000 \<longrightarrow> expectedResolution (gap # rest) = gap) \<and>
   (25000 \<le> gap \<longrightarrow> expectedResolution (gap # rest) = 25000) \<and>
   \<not> listening (eventLoop 0 gaps subscribed) \<and>
   \<not> timerArmed (eventLoop 0 gaps subscribed) \<and>
   (db = Inr store \<longrightarrow> statusCode (participantsReply c db productionId lineId) = 200) \<and>
   (db = Inr store \<and> returnsEveryMatch store (lineQuery productionId lineId) \<longrightarrow>
      participantsReply c db productionId lineId =
        \<lparr> statusCode = 200,
          payload = Participants (sortParticipants c (map toParticipant
                      (filter (\<lambda>s. us_productionId s = productionId \<and> us_lineId s = lineId \<and>
                                    \<not> us_isExpired s) (documents store)))) \<rparr>) \<and>
   (db = Inl err \<longrightarrow>
      participantsReply c db productionId lineId =
        \<lparr> statusCode = 500,
          payload = Text (''Exception thrown when trying to set connection status for session: ''
                          @ error_toString err) \<rparr>)"
proof (intro conjI impI)
  show "participantsPoll c gaps dbAt productionId lineId =
     Some (expectedResolution gaps,
           participantsReply c (dbAt (expectedResolution gaps)) productionId lineId)"
    by (simp add: participantsPoll_def eventLoop_subscribed)
  show "expectedResolution gaps \<le> 25000"
    by (simp add: expectedResolution_def timeoutMs_def split: list.splits)
  show "expectedResolution [] = 25000" by (simp add: expectedResolution_def timeoutMs_def)
  show "\<not> listening (eventLoop 0 gaps subscribed)" by (simp add: eventLoop_subscribed)
  show "\<not> timerArmed (eventLoop 0 gaps subscribed)" by (simp add: eventLoop_subscribed)
next
  assume "gap < 25000"
  then show "expectedResolution (gap # rest) = gap"
    by (simp add: expectedResolution_def timeoutMs_def)
next
  assume "25000 \<le> gap"
  then show "expectedResolution (gap # rest) = 25000"
    by (simp add: expectedResolution_def timeoutMs_def)
next
  assume db: "db = Inr store"
  obtain found where "getSessionsByQuery (Inr store) (lineQuery productionId lineId) = Inr found"
    using getSessionsByQuery_Inr by blast
  then show "statusCode (participantsReply c db productionId lineId) = 200"
    by (simp add: participantsReply_lineQuery db)
next
  assume a: "db = Inr store \<and> returnsEveryMatch store (lineQuery productionId lineId)"
  then have db: "db = Inr store" and r: "returnsEveryMatch store (lineQuery productionId lineId)"
    by simp_all
  show "participantsReply c db productionId lineId =
        \<lparr> statusCode = 200,
          payload = Participants (sortParticipants c (map toParticipant
                      (filter (\<lambda>s. us_productionId s = productionId \<and> us_lineId s = lineId \<and>
                                    \<not> us_isExpired s) (documents store)))) \<rparr>"
    by (simp add: participantsReply_lineQuery db getSessionsByQuery_every_match[OF r])
next
  assume "db = Inl err"
  then show "participantsReply c db productionId lineId =
        \<lparr> statusCode = 500,
          payload = Text (''Exception thrown when trying to set connection status for session: ''
                          @ error_toString err) \<rparr>"
    by (simp add: participantsReply_lineQuery getSessionsByQuery_def)
qed

lemma sampleStore_every_match:
  "returnsEveryMatch \<lparr> backend = CouchDb, documents = [sampleSession] \<rparr> (lineQuery [0x31] ''l1'')"
  by (simp add: returnsEveryMatch_def couchFindLimit_def)

text \<open>With no change at all the poll of line \<open>l1\<close> answers at 25000 ms with the one
  session that is on the line then; with a change after 300 ms, and another 50000 ms
  later, it answers at 300 ms.\<close>

theorem participantsPoll_resolves_witness:
  "participantsPoll sampleCollation [] sampleStore [0x31] ''l1'' =
     Some (25000, \<lparr> statusCode = 200,
                    payload = Participants (sortParticipants sampleCollation
                                              [toParticipant sampleSession]) \<rparr>) \<and>
   map_option fst (participantsPoll sampleCollation [300, 50000] sampleStore [0x31] ''l1'') =
     Some 300"
proof -
  note t1 = participantsPoll_resolves
              [of sampleCollation "[]" sampleStore "[0x31]" "''l1''" 300 "[50000]"
                  "sampleStore 25000" "\<lparr> backend = CouchDb, documents = [sampleSession] \<rparr>"]
  note t2 = participantsPoll_resolves
              [of sampleCollation "[300, 50000]" sampleStore "[0x31]" "''l1''" 300 "[50000]"]
  have e: "expectedResolution [] = 25000"
    by (rule t1[THEN conjunct2, THEN conjunct2, THEN conjunct1])
  have h: "sampleStore 25000 = Inr \<lparr> backend = CouchDb, documents = [sampleSession] \<rparr> \<and>
           returnsEveryMatch \<lparr> backend = CouchDb, documents = [sampleSession] \<rparr>
             (lineQuery [0x31] ''l1'')"
    using sampleStore_every_match by (simp add: sampleStore_def)
  have r: "participantsReply sampleCollation (sampleStore 25000) [0x31] ''l1'' =
        \<lparr> statusCode = 200,
          payload = Participants (sortParticipants sampleCollation
                                    [toParticipant sampleSession]) \<rparr>"
    using t1[THEN conjunct2, THEN conjunct2, THEN conjunct2, THEN conjunct2, THEN conjunct2,
             THEN conjunct2, THEN conjunct2, THEN conjunct2, THEN conjunct1, THEN mp, OF h]
    by (simp add: sampleSession_def)
  have 1: "participantsPoll sampleCollation [] sampleStore [0x31] ''l1'' =
     Some (25000, \<lparr> statusCode = 200,
                    payload = Participants (sortParticipants sampleCollation
                                              [toParticipant sampleSession]) \<rparr>)"
    using t1[THEN conjunct1] e r by simp
  have lt: "(300 :: nat) < 25000" by simp
  have 3: "expectedResolution [300, 50000] = 300"
    by (rule t2[THEN conjunct2, THEN conjunct2, THEN conjunct2, THEN conjunct1, THEN mp, OF lt])
  have 2: "map_option fst (participantsPoll sampleCollation [300, 50000] sampleStore [0x31] ''l1'') =
             Some 300"
    using t2[THEN conjunct1] 3 by simp
  show ?thesis using 1 2 by (rule conjI)
qed

text \<open>The store cannot be reached when the poll times out: the reply is 500, not 200
  with a participant list.\<close>

theorem participantsPoll_store_failure_counterexample:
  "participantsPoll sampleCollation [] unreachableStore [0x31] ''l1'' =
     Some (25000,
           \<lparr> statusCode = 500,
             payload = Text (''Exception thrown when trying to set connection status for session: ''
                             @ ''Error: Database not connected'') \<rparr>) \<and>
   map_option (statusCode \<circ> snd)
     (participantsPoll sampleCollation [] unreachableStore [0x31] ''l1'') \<noteq> Some 200"
proof -
  have p: "participantsPoll sampleCollation [] unreachableStore [0x31] ''l1'' =
     Some (expectedResolution [],
           participantsReply sampleCollation (unreachableStore (expectedResolution []))
             [0x31] ''l1'')"
    unfolding participantsPoll_def eventLoop_subscribed by simp
  show ?thesis
    unfolding p
    by (simp add: expectedResolution_def timeoutMs_def participantsReply_def
          unreachableStore_def getSessionsByQuery_def)
qed

end
